theory Spec2Isabelle
  imports Main "HOL-Library.Sublist"
begin

section \<open>Strings as the Python code uses them\<close>

text \<open>
  Text is a list of characters.  Documents are taken to be ASCII, so a character of the
  model is a character of the Python string.  The three control characters the code
  writes as escapes are named here.
\<close>

abbreviation TAB :: char where "TAB \<equiv> CHR 0x09"
abbreviation NL :: char where "NL \<equiv> CHR 0x0A"
abbreviation DQ :: char where "DQ \<equiv> CHR 0x22"

text \<open>Python's \<^verbatim>\<open>sub in s\<close>, and \<^verbatim>\<open>grep sub\<close> on one line: \<open>sub\<close> occurs in \<open>s\<close>.\<close>

fun contains :: "string \<Rightarrow> string \<Rightarrow> bool" where
  "contains sub [] = (sub = [])"
| "contains sub (c # cs) = (prefix sub (c # cs) \<or> contains sub cs)"

text \<open>Python's \<^verbatim>\<open>s.split(sep)\<close> for a one-character separator.\<close>

fun split_on :: "char \<Rightarrow> string \<Rightarrow> string list" where
  "split_on sep [] = [[]]"
| "split_on sep (c # cs) =
     (if c = sep then [] # split_on sep cs
      else (case split_on sep cs of [] \<Rightarrow> [[c]] | w # ws \<Rightarrow> (c # w) # ws))"

text \<open>Python's \<^verbatim>\<open>sep.join(xs)\<close>.\<close>

fun join :: "string \<Rightarrow> string list \<Rightarrow> string" where
  "join sep [] = []"
| "join sep [x] = x"
| "join sep (x # y # ys) = x @ sep @ join sep (y # ys)"

section \<open>The regular expressions of \<^verbatim>\<open>generate_thumbnail\<close>\<close>

text \<open>
  The three patterns of the function are built from literals, \<^verbatim>\<open>\d+\<close>, the optional group
  \<^verbatim>\<open>(\.\d+)?\<close> and a lazy \<^verbatim>\<open>.*?\<close> before a literal.  Each is matched deterministically: a
  shorter run of digits is always followed by a digit, where the pattern wants a dot or a
  quote, so backtracking never finds a match the greedy reading misses.
\<close>

definition is_digit :: "char \<Rightarrow> bool" where
  "is_digit c = (c \<in> set ''0123456789'')"

fun strip_prefix :: "string \<Rightarrow> string \<Rightarrow> string option" where
  "strip_prefix [] s = Some s"
| "strip_prefix (p # ps) [] = None"
| "strip_prefix (p # ps) (c # cs) = (if p = c then strip_prefix ps cs else None)"

text \<open>\<^verbatim>\<open>\d+\<close>: the digits and what follows them.\<close>

definition digits1 :: "string \<Rightarrow> (string \<times> string) option" where
  "digits1 s =
     (let d = takeWhile is_digit s
      in if d = [] then None else Some (d, dropWhile is_digit s))"

text \<open>\<^verbatim>\<open>(\.\d+)?\<close>: the text of the group (empty when it does not take part) and the rest.\<close>

definition opt_fraction :: "string \<Rightarrow> string \<times> string" where
  "opt_fraction s =
     (case s of
        [] \<Rightarrow> ([], s)
      | c # r \<Rightarrow>
          if c = CHR ''.'' then
            (case digits1 r of None \<Rightarrow> ([], s) | Some (d, r') \<Rightarrow> (c # d, r'))
          else ([], s))"

text \<open>
  \<^verbatim>\<open>name="(\d+(\.\d+)?)"\<close> at the start of \<open>s\<close>: group 1 and the length of the match.
\<close>

definition match_attr :: "string \<Rightarrow> string \<Rightarrow> (string \<times> nat) option" where
  "match_attr name s =
     (case strip_prefix (name @ [CHR ''='', DQ]) s of
        None \<Rightarrow> None
      | Some r1 \<Rightarrow>
          (case digits1 r1 of
             None \<Rightarrow> None
           | Some (d, r2) \<Rightarrow>
               (case opt_fraction r2 of
                  (f, r3) \<Rightarrow>
                    (case strip_prefix [DQ] r3 of
                       None \<Rightarrow> None
                     | Some r4 \<Rightarrow> Some (d @ f, length s - length r4)))))"

text \<open>\<^verbatim>\<open>.*?lit\<close>: what follows the first occurrence of the literal.\<close>

fun after_first :: "string \<Rightarrow> string \<Rightarrow> string option" where
  "after_first lit [] = strip_prefix lit []"
| "after_first lit (c # cs) =
     (case strip_prefix lit (c # cs) of
        Some r \<Rightarrow> Some r
      | None \<Rightarrow> after_first lit cs)"

text \<open>
  \<^verbatim>\<open><text x="(\d+)(\.\d+)?" y="(\d+)(\.\d+)?".*?</text>\<close> at the start of \<open>s\<close>: the matched
  text (group 0), group 1, group 3, and the length of the match.
\<close>

definition match_text :: "string \<Rightarrow> ((string \<times> string \<times> string) \<times> nat) option" where
  \<open>match_text s =
     (case strip_prefix ''<text x="'' s of
        None \<Rightarrow> None
      | Some r1 \<Rightarrow>
          (case digits1 r1 of
             None \<Rightarrow> None
           | Some (x, r2) \<Rightarrow>
               (case strip_prefix ''" y="'' (snd (opt_fraction r2)) of
                  None \<Rightarrow> None
                | Some r3 \<Rightarrow>
                    (case digits1 r3 of
                       None \<Rightarrow> None
                     | Some (y, r4) \<Rightarrow>
                         (case strip_prefix [DQ] (snd (opt_fraction r4)) of
                            None \<Rightarrow> None
                          | Some r5 \<Rightarrow>
                              (case after_first ''</text>'' r5 of
                                 None \<Rightarrow> None
                               | Some r6 \<Rightarrow>
                                   Some ((take (length s - length r6) s, x, y),
                                         length s - length r6)))))))\<close>

text \<open>
  \<^verbatim>\<open>re.findall\<close> and \<^verbatim>\<open>re.finditer\<close>: the matches from left to right, none overlapping an
  earlier one.  The counter is the number of characters still inside the last match.
\<close>

fun scan :: "(string \<Rightarrow> ('a \<times> nat) option) \<Rightarrow> nat \<Rightarrow> string \<Rightarrow> 'a list" where
  "scan m k [] = []"
| "scan m (Suc k) (c # cs) = scan m k cs"
| "scan m 0 (c # cs) =
     (case m (c # cs) of
        None \<Rightarrow> scan m 0 cs
      | Some (g, n) \<Rightarrow> g # scan m (n - 1) cs)"

section \<open>\<^verbatim>\<open>generate_thumbnail\<close>\<close>

datatype py_error = UnboundLocalError | IndexError | TypeError

text \<open>
  The locals of the loop.  \<open>width\<close> and \<open>height\<close> are unbound (\<open>None\<close>) until a line
  assigns them the list \<^verbatim>\<open>re.findall\<close> returns; of each match only group 1 is kept, the
  one the code reads.
\<close>

record thumb_state =
  width :: "string list option"
  height :: "string list option"
  move_to_start_position :: "string option"
  points :: "string list"

definition initial_thumb_state :: thumb_state where
  "initial_thumb_state =
     \<lparr>width = None, height = None, move_to_start_position = None, points = []\<rparr>"

text \<open>The body of the inner loop, for one \<^verbatim>\<open>nt_block\<close>.\<close>

definition record_point :: "thumb_state \<Rightarrow> string \<times> string \<times> string \<Rightarrow> thumb_state" where
  "record_point st b =
     (case b of
        (group0, x, y) \<Rightarrow>
          if contains ''numbering-label'' group0 then st
          else
            (let st1 =
               (if move_to_start_position st = None \<or> move_to_start_position st = Some []
                then st\<lparr>move_to_start_position := Some (''M'' @ x @ '' '' @ y @ '' '')\<rparr>
                else st)
             in st1\<lparr>points := points st1 @ [''L'' @ x @ '' '' @ y]\<rparr>))"

text \<open>The body of the outer loop, for one line.\<close>

definition scan_line :: "thumb_state \<Rightarrow> string \<Rightarrow> thumb_state" where
  "scan_line st line =
     (let st1 =
        (if contains ''width'' line \<and> \<not> contains ''stroke-width'' line
         then st\<lparr>width := Some (scan (match_attr ''width'') 0 line)\<rparr> else st);
          st2 =
        (if contains ''height'' line
         then st1\<lparr>height := Some (scan (match_attr ''height'') 0 line)\<rparr> else st1)
      in foldl record_point st2 (scan match_text 0 line))"

definition scan_image :: "string \<Rightarrow> thumb_state" where
  "scan_image img = foldl scan_line initial_thumb_state (split_on NL img)"

definition stroke_width :: "nat \<Rightarrow> string" where
  "stroke_width n =
     (if n < 200 then ''3''
      else if n < 500 then ''4''
      else if n < 3000 then ''4''
      else ''2'')"

text \<open>\<^verbatim>\<open>width[0][0]\<close>: the first match of the list, when the local is bound and not empty.\<close>

definition first_group :: "string list option \<Rightarrow> py_error + string" where
  "first_group v =
     (case v of
        None \<Rightarrow> Inl UnboundLocalError
      | Some [] \<Rightarrow> Inl IndexError
      | Some (g # _) \<Rightarrow> Inr g)"

text \<open>The f-string that opens the document.\<close>

definition thumbnail_head :: "string \<Rightarrow> string \<Rightarrow> string \<Rightarrow> string \<Rightarrow> string" where
  \<open>thumbnail_head w h color sw =
     ''<svg xmlns="http://www.w3.org/2000/svg" '' @
     ''width="'' @ w @ ''" height="'' @ h @ ''">'' @
     ''<path style="stroke:'' @ color @ '';stroke-width:'' @ sw @ ''px;'' @
     ''fill:none;" d="''\<close>

text \<open>
  \<open>colorhash\<close> stands for \<^verbatim>\<open>ColorHash(description).hex\<close> of the colorhash package, which
  is not part of the repository.
\<close>

definition generate_thumbnail :: "(string \<Rightarrow> string) \<Rightarrow> string \<Rightarrow> string \<Rightarrow> py_error + string" where
  \<open>generate_thumbnail colorhash img description =
     (let color = colorhash description;
          st = scan_image img;
          sw = stroke_width (length (points st))
      in case first_group (width st) of
           Inl e \<Rightarrow> Inl e
         | Inr w \<Rightarrow>
             (case first_group (height st) of
                Inl e \<Rightarrow> Inl e
              | Inr h \<Rightarrow>
                  (case move_to_start_position st of
                     None \<Rightarrow> Inl TypeError
                   | Some m \<Rightarrow>
                       Inr (thumbnail_head w h color sw @ m @ join '' '' (points st) @
                            ''"/></svg>''))))\<close>

subsection \<open>The path, read off the document\<close>

text \<open>
  The coordinates of the text elements of one line that are not numbering labels, from
  left to right, and those of the whole document, line after line.
\<close>

definition line_points :: "string \<Rightarrow> (string \<times> string) list" where
  "line_points line =
     map snd (filter (\<lambda>b. \<not> contains ''numbering-label'' (fst b)) (scan match_text 0 line))"

definition qualifying_points :: "string \<Rightarrow> (string \<times> string) list" where
  "qualifying_points img = concat (map line_points (split_on NL img))"

definition line_to :: "string \<times> string \<Rightarrow> string" where
  "line_to p = ''L'' @ fst p @ '' '' @ snd p"

definition move_to :: "string \<times> string \<Rightarrow> string" where
  "move_to p = ''M'' @ fst p @ '' '' @ snd p @ '' ''"

text \<open>The value of \<^verbatim>\<open>move_to_start_position\<close> after the points \<open>ps\<close>, when it was \<open>m\<close> before.\<close>

definition origin_of :: "string option \<Rightarrow> (string \<times> string) list \<Rightarrow> string option" where
  "origin_of m ps =
     (if m = None \<or> m = Some [] then (case ps of [] \<Rightarrow> m | p # _ \<Rightarrow> Some (move_to p))
      else m)"

subsection \<open>Two small diagrams\<close>

definition diagram_two_points :: string where
  \<open>diagram_two_points =
     ''<svg width="10" height="20">'' @ [NL] @
     ''<text x="1.5" y="2">A</text>'' @
     ''<text x="3" y="4" class="numbering-label">5</text>'' @
     ''<text x="5" y="6">C</text>'' @ [NL] @
     ''</svg>''\<close>

definition diagram_no_points :: string where
  \<open>diagram_no_points = ''<svg width="10" height="20">'' @ [NL] @ ''</svg>''\<close>

section \<open>\<^verbatim>\<open>get_ribotyper_output\<close>: the shell pipeline over the classifier's report\<close>

text \<open>
  The report \<^verbatim>\<open>.ribotyper.long.out\<close> is a list of lines, without their line ends.
  \<^verbatim>\<open>grep pat\<close> keeps the lines in which the text occurs, \<^verbatim>\<open>grep -v pat\<close> the others,
  and \<^verbatim>\<open>grep -v '^#'\<close> the lines that do not start with a hash sign.
\<close>

definition grep :: "string \<Rightarrow> string list \<Rightarrow> string list" where
  "grep pat ls = filter (\<lambda>l. contains pat l) ls"

definition grep_v :: "string \<Rightarrow> string list \<Rightarrow> string list" where
  "grep_v pat ls = filter (\<lambda>l. \<not> contains pat l) ls"

definition grep_v_start :: "string \<Rightarrow> string list \<Rightarrow> string list" where
  "grep_v_start pat ls = filter (\<lambda>l. \<not> prefix pat l) ls"

text \<open>
  \<^verbatim>\<open>awk\<close> splits a line into fields at runs of blanks and tabs; a field beyond the last
  is the empty string.  \<open>awk_split cur s\<close> is given the field begun so far.
\<close>

definition is_blank :: "char \<Rightarrow> bool" where
  "is_blank c = (c = CHR '' '' \<or> c = TAB)"

fun awk_split :: "string \<Rightarrow> string \<Rightarrow> string list" where
  "awk_split cur [] = (if cur = [] then [] else [cur])"
| "awk_split cur (c # cs) =
     (if is_blank c then (if cur = [] then awk_split [] cs else cur # awk_split [] cs)
      else awk_split (cur @ [c]) cs)"

definition awk_field :: "nat \<Rightarrow> string \<Rightarrow> string" where
  "awk_field n line =
     (let fs = awk_split [] line
      in if 1 \<le> n \<and> n \<le> length fs then fs ! (n - 1) else [])"

text \<open>\<^verbatim>\<open>awk -v OFS='\t' '{print $2, $8, $3}'\<close>: one line of \<^verbatim>\<open>hits.txt\<close>, with its line end.\<close>

definition awk_print :: "string \<Rightarrow> string" where
  "awk_print line = awk_field 2 line @ [TAB] @ awk_field 8 line @ [TAB] @ awk_field 3 line @ [NL]"

text \<open>
  The two pipelines of lines 51 to 62: what \<^verbatim>\<open>hits.txt\<close> holds for a report, under the
  flag \<^verbatim>\<open>skip_ribovore_filters\<close>.
\<close>

definition filter_report :: "bool \<Rightarrow> string list \<Rightarrow> string list" where
  "filter_report skip_ribovore_filters long_out =
     (if \<not> skip_ribovore_filters
      then map awk_print (grep ''PASS'' (grep_v ''MultipleHits'' (grep_v_start ''#'' long_out)))
      else map awk_print (grep_v ''NoHits'' (grep_v_start ''#'' long_out)))"

subsection \<open>A report of three rows\<close>




subsection \<open>Rows in which a token occurs outside the flag columns\<close>




section \<open>Result folders and \<^verbatim>\<open>organise_metadata\<close>\<close>

text \<open>\<^verbatim>\<open>os.path.join\<close> of two components, on a POSIX system.\<close>

definition path_join :: "string \<Rightarrow> string \<Rightarrow> string" where
  "path_join a b =
     (if prefix ''/'' b then b
      else if a = [] \<or> last a = CHR ''/'' then a @ b
      else a @ ''/'' @ b)"

text \<open>The folders that \<^verbatim>\<open>draw\<close> names at lines 222 to 228.\<close>

definition crw_output :: "string \<Rightarrow> string" where
  "crw_output output_folder = path_join output_folder ''crw''"

definition ribovision_ssu_output :: "string \<Rightarrow> string" where
  "ribovision_ssu_output output_folder = path_join output_folder ''ribovision-ssu''"

definition ribovision_lsu_output :: "string \<Rightarrow> string" where
  "ribovision_lsu_output output_folder = path_join output_folder ''ribovision-lsu''"

definition rfam_output :: "string \<Rightarrow> string" where
  "rfam_output output_folder = path_join output_folder ''rfam''"

definition gtrnadb_output :: "string \<Rightarrow> string" where
  "gtrnadb_output output_folder = path_join output_folder ''gtrnadb''"

definition rfam_trna_output :: "string \<Rightarrow> string" where
  "rfam_trna_output output_folder = path_join output_folder ''RF00005''"

definition rnasep_output :: "string \<Rightarrow> string" where
  "rnasep_output output_folder = path_join output_folder ''rnasep''"

text \<open>The list \<^verbatim>\<open>result_folders\<close> of lines 365 to 373, in the order the code writes it.\<close>

definition result_folders :: "string \<Rightarrow> string list" where
  "result_folders output_folder =
     [crw_output output_folder,
      ribovision_ssu_output output_folder,
      ribovision_lsu_output output_folder,
      rfam_output output_folder,
      gtrnadb_output output_folder,
      rfam_trna_output output_folder,
      rnasep_output output_folder]"

text \<open>
  The folders in the order in which \<^verbatim>\<open>draw\<close> runs their stages (lines 235 to 362): Rfam,
  RiboVision SSU, CRW, RiboVision LSU, RNAse P, GtRNAdb, Rfam tRNA.
\<close>

definition cascade_folders :: "string \<Rightarrow> string list" where
  "cascade_folders output_folder =
     [rfam_output output_folder,
      ribovision_ssu_output output_folder,
      crw_output output_folder,
      ribovision_lsu_output output_folder,
      rnasep_output output_folder,
      gtrnadb_output output_folder,
      rfam_trna_output output_folder]"

text \<open>
  Python's \<^verbatim>\<open>s.replace(old, new)\<close>: the occurrences of \<open>old\<close> from left to right, none
  overlapping an earlier one.  The counter is the number of characters still inside the
  occurrence just replaced.
\<close>

fun replace_from :: "string \<Rightarrow> string \<Rightarrow> nat \<Rightarrow> string \<Rightarrow> string" where
  "replace_from old new k [] = []"
| "replace_from old new (Suc k) (c # cs) = replace_from old new k cs"
| "replace_from old new 0 (c # cs) =
     (if prefix old (c # cs) then new @ replace_from old new (length old - 1) cs
      else c # replace_from old new 0 cs)"

definition replace :: "string \<Rightarrow> string \<Rightarrow> string \<Rightarrow> string" where
  "replace old new s =
     (if old = [] then new @ concat (map (\<lambda>c. c # new) s) else replace_from old new 0 s)"

text \<open>The \<^verbatim>\<open>if\<close>/\<^verbatim>\<open>elif\<close> chain of lines 804 to 817, for one line of one folder.\<close>

definition relabel :: "string \<Rightarrow> string \<Rightarrow> string" where
  "relabel folder line =
     (if contains ''gtrnadb'' folder then replace ''PASS'' ''GtRNAdb'' line
      else if contains ''crw'' folder then
        replace ''FAIL'' ''CRW'' (replace ''PASS'' ''CRW'' line)
      else if contains ''rfam'' folder \<or> contains ''RF00005'' folder then
        replace ''FAIL'' ''Rfam'' (replace ''PASS'' ''Rfam'' line)
      else if contains ''ribovision-lsu'' folder \<or> contains ''ribovision-ssu'' folder then
        replace ''FAIL'' ''RiboVision'' (replace ''PASS'' ''RiboVision'' line)
      else if contains ''rnasep'' folder then
        replace ''FAIL'' ''RNAse P Database'' (replace ''PASS'' ''RNAse P Database'' line)
      else line)"

text \<open>
  The files \<^verbatim>\<open>hits.txt\<close> are a map from the folder to the lines of its file, each line
  with its line end, as \<^verbatim>\<open>readlines\<close> returns them.  \<open>write_folder\<close> is the body of the
  loop over the folders; \<open>f_out\<close> is the list of the strings written so far.
\<close>

definition write_folder :: "(string \<rightharpoonup> string list) \<Rightarrow> string list \<Rightarrow> string \<Rightarrow> string list" where
  "write_folder hits_files f_out folder =
     (case hits_files folder of
        None \<Rightarrow> f_out
      | Some lines \<Rightarrow> foldl (\<lambda>out line. out @ [relabel folder line]) f_out lines)"

definition organise_metadata :: "(string \<rightharpoonup> string list) \<Rightarrow> string list \<Rightarrow> string list" where
  "organise_metadata hits_files folders = foldl (write_folder hits_files) [] folders"

text \<open>The rows of one folder as the table shows them.\<close>

definition relabelled :: "(string \<rightharpoonup> string list) \<Rightarrow> string \<Rightarrow> string list" where
  "relabelled hits_files folder =
     (case hits_files folder of None \<Rightarrow> [] | Some lines \<Rightarrow> map (relabel folder) lines)"

subsection \<open>Two stages with one hit each\<close>

definition hits_rfam_and_crw :: "string \<rightharpoonup> string list" where
  "hits_rfam_and_crw =
     [rfam_output ''out'' \<mapsto> [''seqA'' @ [TAB] @ ''RF00001'' @ [TAB] @ ''PASS'' @ [NL]],
      crw_output ''out'' \<mapsto> [''seqB'' @ [TAB] @ ''d.5.b.E.coli'' @ [TAB] @ ''PASS'' @ [NL]]]"

subsection \<open>A CRW row that failed the filters, in an output folder named after GtRNAdb\<close>

definition hits_crw_fail :: "string \<rightharpoonup> string list" where
  "hits_crw_fail =
     [crw_output ''gtrnadb-run'' \<mapsto> [''seq1'' @ [TAB] @ ''d.16.b.E.coli'' @ [TAB] @ ''FAIL'' @ [NL]]]"

section \<open>The cascade of \<^verbatim>\<open>draw\<close>\<close>

text \<open>
  What lies outside the file \<^verbatim>\<open>r2dt.py\<close>: the library paths of \<^verbatim>\<open>utils/config\<close> and the
  external classifiers.  A FASTA file is given by the set of the sequence ids it holds.
  \<^item> \<open>ribotyper lib ids\<close> is the report \<^verbatim>\<open>ribotyper.pl\<close> writes for a library and a file,
    \<open>None\<close> when it writes none;
  \<^item> \<open>classify_trna_sequences ids\<close> is the \<^verbatim>\<open>hits.txt\<close> that the function of
    \<^verbatim>\<open>utils/gtrnadb\<close> leaves in its output folder, if any;
  \<^item> \<open>cmsearch_nohmm_mode ids\<close> is the ids the function of \<^verbatim>\<open>utils/rfam\<close> returns and
    the \<^verbatim>\<open>hits.txt\<close> it leaves in the folder \<^verbatim>\<open>RF00005\<close>, if any;
  \<^item> \<open>generate_2d ids\<close> is the \<^verbatim>\<open>hits.txt\<close> that \<^verbatim>\<open>rfam.generate_2d\<close> leaves there, if any.
\<close>

record env =
  CM_LIBRARY :: string
  CRW_CM_LIBRARY :: string
  RIBOVISION_LSU_CM_LIBRARY :: string
  RIBOVISION_SSU_CM_LIBRARY :: string
  RNASEP_CM_LIBRARY :: string
  ribotyper :: "string \<Rightarrow> string set \<Rightarrow> string list option"
  classify_trna_sequences :: "string set \<Rightarrow> string list option"
  cmsearch_nohmm_mode :: "string set \<Rightarrow> string set \<times> string list option"
  generate_2d :: "string set \<Rightarrow> string list option"

text \<open>
  The state of a run: the reports and the \<^verbatim>\<open>hits.txt\<close> files on disk, by folder; the
  local variable \<open>hits\<close>; the stages invoked so far, each with its output folder and the
  ids of the file it was given; the external classifiers run so far; the calls of
  \<^verbatim>\<open>force_draw\<close>; and the metadata table.
\<close>

record run_state =
  long_out :: "string \<rightharpoonup> string list"
  hits_txt :: "string \<rightharpoonup> string list"
  hits :: "string set"
  stage_calls :: "(string \<times> string set) list"
  tool_runs :: "(string \<times> string set) list"
  forced :: "(string \<times> string) set"
  metadata_tsv :: "string list option"

text \<open>\<^verbatim>\<open>line.split("\t")[0]\<close>.\<close>

definition first_field :: "string \<Rightarrow> string" where
  "first_field line = (case split_on TAB line of [] \<Rightarrow> [] | w # _ \<Rightarrow> w)"

definition get_hits :: "(string \<rightharpoonup> string list) \<Rightarrow> string \<Rightarrow> string set" where
  "get_hits hits_files folder =
     (case hits_files folder of
        None \<Rightarrow> {}
      | Some lines \<Rightarrow> set (map first_field lines))"

text \<open>
  \<^verbatim>\<open>get_ribotyper_output\<close>: the classifier runs unless its report is already in the
  folder; then \<^verbatim>\<open>hits.txt\<close> is written from the report, from nothing when there is none.
\<close>

definition get_ribotyper_output ::
    "env \<Rightarrow> string set \<Rightarrow> string \<Rightarrow> string \<Rightarrow> bool \<Rightarrow> run_state \<Rightarrow> run_state" where
  "get_ribotyper_output e fasta_input output_folder cm_library skip_ribovore_filters s =
     (let s1 =
        (if long_out s output_folder = None
         then s\<lparr>long_out := (long_out s)(output_folder := ribotyper e cm_library fasta_input),
                 tool_runs := tool_runs s @ [(cm_library, fasta_input)]\<rparr>
         else s);
          report = (case long_out s1 output_folder of None \<Rightarrow> [] | Some ls \<Rightarrow> ls)
      in s1\<lparr>hits_txt :=
              (hits_txt s1)(output_folder \<mapsto> filter_report skip_ribovore_filters report)\<rparr>)"

text \<open>
  The four commands that \<^verbatim>\<open>draw\<close> invokes.  Each also renders every hit with
  \<^verbatim>\<open>core.visualise\<close>, which touches neither the reports nor the hit lists and is left out.
\<close>

definition ribovision_draw_ssu :: "env \<Rightarrow> string set \<Rightarrow> string \<Rightarrow> bool \<Rightarrow> run_state \<Rightarrow> run_state" where
  "ribovision_draw_ssu e fasta_input output_folder skip_ribovore_filters =
     get_ribotyper_output e fasta_input output_folder (RIBOVISION_SSU_CM_LIBRARY e)
       skip_ribovore_filters"

definition rrna_draw :: "env \<Rightarrow> string set \<Rightarrow> string \<Rightarrow> bool \<Rightarrow> run_state \<Rightarrow> run_state" where
  "rrna_draw e fasta_input output_folder skip_ribovore_filters =
     get_ribotyper_output e fasta_input output_folder (CRW_CM_LIBRARY e) skip_ribovore_filters"

definition ribovision_draw_lsu :: "env \<Rightarrow> string set \<Rightarrow> string \<Rightarrow> bool \<Rightarrow> run_state \<Rightarrow> run_state" where
  "ribovision_draw_lsu e fasta_input output_folder skip_ribovore_filters =
     get_ribotyper_output e fasta_input output_folder (RIBOVISION_LSU_CM_LIBRARY e)
       skip_ribovore_filters"

definition rnasep_draw :: "env \<Rightarrow> string set \<Rightarrow> string \<Rightarrow> bool \<Rightarrow> run_state \<Rightarrow> run_state" where
  "rnasep_draw e fasta_input output_folder skip_ribovore_filters =
     get_ribotyper_output e fasta_input output_folder (RNASEP_CM_LIBRARY e)
       skip_ribovore_filters"

text \<open>The bodies of the two tRNA stages (lines 330 and 352 to 362).\<close>

definition gtrnadb_body :: "env \<Rightarrow> string \<Rightarrow> string set \<Rightarrow> run_state \<Rightarrow> run_state" where
  "gtrnadb_body e output_folder subset_ids s =
     (let s1 = s\<lparr>tool_runs := tool_runs s @ [(''classify_trna_sequences'', subset_ids)]\<rparr>
      in case classify_trna_sequences e subset_ids of
           None \<Rightarrow> s1
         | Some ls \<Rightarrow> s1\<lparr>hits_txt := (hits_txt s1)(gtrnadb_output output_folder \<mapsto> ls)\<rparr>)"

definition rfam_trna_body :: "env \<Rightarrow> string \<Rightarrow> string set \<Rightarrow> run_state \<Rightarrow> run_state" where
  "rfam_trna_body e output_folder subset_ids s =
     (let s1 = s\<lparr>tool_runs := tool_runs s @ [(''cmsearch_nohmm_mode'', subset_ids)]\<rparr>;
          trna_ids = fst (cmsearch_nohmm_mode e subset_ids);
          s2 = (case snd (cmsearch_nohmm_mode e subset_ids) of
                  None \<Rightarrow> s1
                | Some ls \<Rightarrow>
                    s1\<lparr>hits_txt := (hits_txt s1)(rfam_trna_output output_folder \<mapsto> ls)\<rparr>)
      in if trna_ids \<noteq> {} then
           (case generate_2d e trna_ids of
              None \<Rightarrow> s2
            | Some ls \<Rightarrow> s2\<lparr>hits_txt := (hits_txt s2)(rfam_trna_output output_folder \<mapsto> ls)\<rparr>)
         else s2)"

text \<open>
  The block that \<^verbatim>\<open>draw\<close> repeats for each stage after the first:
  \<^verbatim>\<open>hits = hits.union(get_hits(previous))\<close>, \<^verbatim>\<open>subset = all_seq_ids.difference(hits)\<close>,
  and the stage under \<^verbatim>\<open>if subset:\<close>.
\<close>

definition fold_hits :: "string \<Rightarrow> run_state \<Rightarrow> run_state" where
  "fold_hits folder s = s\<lparr>hits := hits s \<union> get_hits (hits_txt s) folder\<rparr>"

definition guarded ::
    "string set \<Rightarrow> string \<Rightarrow> string \<Rightarrow> (string set \<Rightarrow> run_state \<Rightarrow> run_state) \<Rightarrow>
     run_state \<Rightarrow> run_state" where
  "guarded all_seq_ids previous_output this_output stage s =
     (let s1 = fold_hits previous_output s;
          subset_ids = all_seq_ids - hits s1
      in if subset_ids \<noteq> {}
         then stage subset_ids (s1\<lparr>stage_calls := stage_calls s1 @ [(this_output, subset_ids)]\<rparr>)
         else s1)"

text \<open>
  The cascade from each of its comment lines on: \<^verbatim>\<open># Rfam tRNA\<close>, \<^verbatim>\<open># GtRNAdb\<close>,
  \<^verbatim>\<open># RNAse P\<close>, \<^verbatim>\<open># RiboVision LSU\<close>, \<^verbatim>\<open># CRW\<close> and \<^verbatim>\<open># RiboVision SSU\<close>.
\<close>

definition cascade_from_rfam_trna ::
    "env \<Rightarrow> string set \<Rightarrow> string \<Rightarrow> bool \<Rightarrow> run_state \<Rightarrow> run_state" where
  "cascade_from_rfam_trna e all_seq_ids output_folder skip s =
     guarded all_seq_ids (gtrnadb_output output_folder) (rfam_trna_output output_folder)
       (rfam_trna_body e output_folder) s"

definition cascade_from_gtrnadb ::
    "env \<Rightarrow> string set \<Rightarrow> string \<Rightarrow> bool \<Rightarrow> run_state \<Rightarrow> run_state" where
  "cascade_from_gtrnadb e all_seq_ids output_folder skip s =
     cascade_from_rfam_trna e all_seq_ids output_folder skip
       (guarded all_seq_ids (rnasep_output output_folder) (gtrnadb_output output_folder)
          (gtrnadb_body e output_folder) s)"

definition cascade_from_rnasep ::
    "env \<Rightarrow> string set \<Rightarrow> string \<Rightarrow> bool \<Rightarrow> run_state \<Rightarrow> run_state" where
  "cascade_from_rnasep e all_seq_ids output_folder skip s =
     cascade_from_gtrnadb e all_seq_ids output_folder skip
       (guarded all_seq_ids (ribovision_lsu_output output_folder) (rnasep_output output_folder)
          (\<lambda>subset_ids. rnasep_draw e subset_ids (rnasep_output output_folder) skip) s)"

definition cascade_from_lsu ::
    "env \<Rightarrow> string set \<Rightarrow> string \<Rightarrow> bool \<Rightarrow> run_state \<Rightarrow> run_state" where
  "cascade_from_lsu e all_seq_ids output_folder skip s =
     cascade_from_rnasep e all_seq_ids output_folder skip
       (guarded all_seq_ids (crw_output output_folder) (ribovision_lsu_output output_folder)
          (\<lambda>subset_ids. ribovision_draw_lsu e subset_ids (ribovision_lsu_output output_folder) skip) s)"

definition cascade_from_crw ::
    "env \<Rightarrow> string set \<Rightarrow> string \<Rightarrow> bool \<Rightarrow> run_state \<Rightarrow> run_state" where
  "cascade_from_crw e all_seq_ids output_folder skip s =
     cascade_from_lsu e all_seq_ids output_folder skip
       (guarded all_seq_ids (ribovision_ssu_output output_folder) (crw_output output_folder)
          (\<lambda>subset_ids. rrna_draw e subset_ids (crw_output output_folder) skip) s)"

definition cascade_from_ssu ::
    "env \<Rightarrow> string set \<Rightarrow> string \<Rightarrow> bool \<Rightarrow> run_state \<Rightarrow> run_state" where
  "cascade_from_ssu e all_seq_ids output_folder skip s =
     cascade_from_crw e all_seq_ids output_folder skip
       (guarded all_seq_ids (rfam_output output_folder) (ribovision_ssu_output output_folder)
          (\<lambda>subset_ids. ribovision_draw_ssu e subset_ids (ribovision_ssu_output output_folder) skip) s)"

text \<open>
  The first stage (lines 230 to 258): \<open>hits\<close> is the empty set and the Rfam classifier is
  run on the input file under no condition.
\<close>

definition rfam_stage :: "env \<Rightarrow> string set \<Rightarrow> string \<Rightarrow> bool \<Rightarrow> run_state \<Rightarrow> run_state" where
  "rfam_stage e all_seq_ids output_folder skip s =
     get_ribotyper_output e all_seq_ids (rfam_output output_folder)
       (path_join (CM_LIBRARY e) ''rfam'') skip
       (s\<lparr>hits := {},
          stage_calls := stage_calls s @ [(rfam_output output_folder, all_seq_ids)]\<rparr>)"

definition run_cascade :: "env \<Rightarrow> string set \<Rightarrow> string \<Rightarrow> bool \<Rightarrow> run_state \<Rightarrow> run_state" where
  "run_cascade e all_seq_ids output_folder skip s =
     (let s1 = cascade_from_ssu e all_seq_ids output_folder skip
                 (rfam_stage e all_seq_ids output_folder skip s)
      in s1\<lparr>metadata_tsv :=
              Some (organise_metadata (hits_txt s1) (result_folders output_folder))\<rparr>)"

text \<open>
  \<^verbatim>\<open>draw\<close>, given the ids that \<^verbatim>\<open>get_seq_ids\<close> reads from the input file.  With a template
  that is not empty every sequence goes to \<^verbatim>\<open>force_draw\<close>, of which only the call is kept.
\<close>

definition draw ::
    "env \<Rightarrow> string set \<Rightarrow> string \<Rightarrow> string option \<Rightarrow> bool \<Rightarrow> run_state \<Rightarrow> run_state" where
  "draw e all_seq_ids output_folder force_template skip_ribovore_filters s =
     (case force_template of
        None \<Rightarrow> run_cascade e all_seq_ids output_folder skip_ribovore_filters s
      | Some t \<Rightarrow>
          if t = [] then run_cascade e all_seq_ids output_folder skip_ribovore_filters s
          else s\<lparr>forced := forced s \<union> (\<lambda>seq_id. (t, seq_id)) ` all_seq_ids\<rparr>)"

text \<open>An output folder in which no earlier run has left a report or a hit list.\<close>

definition fresh :: "run_state \<Rightarrow> bool" where
  "fresh s = (long_out s = Map.empty \<and> hits_txt s = Map.empty)"

definition empty_state :: run_state where
  "empty_state =
     \<lparr>long_out = Map.empty, hits_txt = Map.empty, hits = {}, stage_calls = [], tool_runs = [],
      forced = {}, metadata_tsv = None\<rparr>"

subsection \<open>A run on three sequences\<close>

text \<open>
  The Rfam library matches sequence \<open>A\<close>, the RiboVision SSU library matches \<open>B\<close>, and
  nothing matches \<open>C\<close>.
\<close>

definition scenario_env :: env where
  "scenario_env =
     \<lparr>CM_LIBRARY = ''cms'', CRW_CM_LIBRARY = ''cms/crw'',
      RIBOVISION_LSU_CM_LIBRARY = ''cms/lsu'', RIBOVISION_SSU_CM_LIBRARY = ''cms/ssu'',
      RNASEP_CM_LIBRARY = ''cms/rnasep'',
      ribotyper = (\<lambda>lib ids.
        Some (if lib = ''cms/rfam'' \<and> ''A'' \<in> ids
              then [''1  A  PASS  90  1  -  -  RF00001  plus  -'']
              else if lib = ''cms/ssu'' \<and> ''B'' \<in> ids
              then [''1  B  PASS  900  1  SSU  Bacteria  EC_SSU_3D  plus  -'']
              else [])),
      classify_trna_sequences = (\<lambda>ids. Some []),
      cmsearch_nohmm_mode = (\<lambda>ids. ({}, None)),
      generate_2d = (\<lambda>ids. None)\<rparr>"

definition scenario_run :: run_state where
  "scenario_run = draw scenario_env {''A'', ''B'', ''C''} ''out'' None False empty_state"

section \<open>Notions the properties of the cascade are stated with\<close>

text \<open>
  From \<open>s\<close> to \<open>s'\<close> no stage was invoked, no classifier was run and no report or hit list
  was written.
\<close>

definition no_invocation :: "run_state \<Rightarrow> run_state \<Rightarrow> bool" where
  "no_invocation s s' =
     (stage_calls s' = stage_calls s \<and> tool_runs s' = tool_runs s \<and>
      long_out s' = long_out s \<and> hits_txt s' = hits_txt s)"

text \<open>A state in which every id of the input \<open>{A}\<close> is already in \<open>hits\<close>.\<close>

definition all_claimed_state :: run_state where
  "all_claimed_state = empty_state\<lparr>hits := {''A''}\<rparr>"

text \<open>The ids that the hit list of a folder holds in state \<open>s\<close>: what its stage claimed.\<close>

definition claimed :: "run_state \<Rightarrow> string \<Rightarrow> string set" where
  "claimed s folder = get_hits (hits_txt s) folder"

text \<open>
  The contract of the external classifiers: each reports only ids of the file it is given,
  under either filtering policy.
\<close>

definition reports_own_input :: "env \<Rightarrow> bool" where
  "reports_own_input e =
     ((\<forall>lib ids report skip.
         ribotyper e lib ids = Some report \<longrightarrow>
         first_field ` set (filter_report skip report) \<subseteq> ids) \<and>
      (\<forall>ids ls. classify_trna_sequences e ids = Some ls \<longrightarrow> first_field ` set ls \<subseteq> ids) \<and>
      (\<forall>ids. fst (cmsearch_nohmm_mode e ids) \<subseteq> ids) \<and>
      (\<forall>ids ls. snd (cmsearch_nohmm_mode e ids) = Some ls \<longrightarrow> first_field ` set ls \<subseteq> ids) \<and>
      (\<forall>ids ls. generate_2d e ids = Some ls \<longrightarrow> first_field ` set ls \<subseteq> ids))"

text \<open>
  A stage that, started where its folder holds neither a report nor a hit list, leaves
  \<open>hits\<close> and the files of all other folders alone and writes hits of its input only.
\<close>

definition writes_own_folder :: "string \<Rightarrow> (string set \<Rightarrow> run_state \<Rightarrow> run_state) \<Rightarrow> bool" where
  "writes_own_folder r stage =
     (\<forall>ids s.
        hits_txt s r = None \<and> long_out s r = None \<longrightarrow>
        hits (stage ids s) = hits s \<and>
        stage_calls (stage ids s) = stage_calls s \<and>
        (\<forall>g. g \<noteq> r \<longrightarrow>
           hits_txt (stage ids s) g = hits_txt s g \<and> long_out (stage ids s) g = long_out s g) \<and>
        get_hits (hits_txt (stage ids s)) r \<subseteq> ids)"

text \<open>
  The invariant of the cascade, after the stage of folder \<open>current\<close> and before its hits
  are folded in: \<open>past\<close> are the folders folded in so far, \<open>rest\<close> those of the stages
  still to come.
\<close>

definition cascade_inv ::
    "string set \<Rightarrow> run_state \<Rightarrow> string list \<Rightarrow> string \<Rightarrow> string list \<Rightarrow> bool" where
  "cascade_inv all_seq_ids s past current rest =
     (hits s = \<Union> (claimed s ` set past) \<and>
      hits s \<subseteq> all_seq_ids \<and>
      claimed s current \<subseteq> all_seq_ids - hits s \<and>
      (\<forall>i j. i < j \<and> j < length past \<longrightarrow>
         claimed s (past ! i) \<inter> claimed s (past ! j) = {}) \<and>
      (\<forall>(g, ids) \<in> set (stage_calls s).
         g \<in> set (past @ [current]) \<and>
         ids = all_seq_ids -
               \<Union> (claimed s ` set (takeWhile (\<lambda>h. h \<noteq> g) (past @ [current])))) \<and>
      (\<forall>r \<in> set rest. hits_txt s r = None \<and> long_out s r = None))"

text \<open>
  The working set before a guarded block whose previous stage wrote \<open>previous_output\<close>:
  the value of \<^verbatim>\<open>subset\<close> that the block computes in state \<open>s\<close>.
\<close>

definition working_subset :: "string set \<Rightarrow> string \<Rightarrow> run_state \<Rightarrow> string set" where
  "working_subset all_seq_ids previous_output s =
     all_seq_ids - (hits s \<union> get_hits (hits_txt s) previous_output)"

text \<open>
  What \<^verbatim>\<open>get_ribotyper_output\<close> leaves behind when it is called in state \<open>s\<close> for a
  library, a file and a folder: the hit list of the folder is written from the report
  (the one already there, else the one the classifier writes for this file), and when no
  report was there the classifier has been run on this file, next after the runs before.
\<close>

definition ribotyper_stage_ran ::
    "env \<Rightarrow> string \<Rightarrow> string set \<Rightarrow> bool \<Rightarrow> string \<Rightarrow> run_state \<Rightarrow> run_state \<Rightarrow> bool" where
  "ribotyper_stage_ran e lib ids skip folder s s' =
     (hits_txt s' folder =
        Some (filter_report skip
                (case long_out s folder of
                   Some report \<Rightarrow> report
                 | None \<Rightarrow> (case ribotyper e lib ids of None \<Rightarrow> [] | Some report \<Rightarrow> report))) \<and>
      (long_out s folder = None \<longrightarrow>
         (\<exists>more. tool_runs s' = tool_runs s @ (lib, ids) # more)))"

text \<open>A tRNA classifier has been run on a file, next after the runs before.\<close>

definition tool_ran :: "string \<Rightarrow> string set \<Rightarrow> run_state \<Rightarrow> run_state \<Rightarrow> bool" where
  "tool_ran tool ids s s' = (\<exists>more. tool_runs s' = tool_runs s @ (tool, ids) # more)"

text \<open>
  From \<open>s\<close> to \<open>s'\<close> the log of classifier runs only grew and no hit list outside
  \<open>folders\<close> changed.
\<close>

definition extends :: "string list \<Rightarrow> run_state \<Rightarrow> run_state \<Rightarrow> bool" where
  "extends folders s s' =
     ((\<exists>ext. tool_runs s' = tool_runs s @ ext) \<and>
      (\<forall>g. g \<notin> set folders \<longrightarrow> hits_txt s' g = hits_txt s g))"

text \<open>
  An output folder in which an earlier run on the sequences \<open>A\<close> and \<open>Z\<close> has left the
  report of the RiboVision SSU stage.
\<close>

definition stale_state :: run_state where
  "stale_state =
     empty_state\<lparr>long_out :=
       [ribovision_ssu_output ''out'' \<mapsto>
          [''1  A  PASS  900  1  SSU  Bacteria  EC_SSU_3D  plus  -'',
           ''2  Z  PASS  900  1  SSU  Bacteria  EC_SSU_3D  plus  -'']]\<rparr>"

section \<open>The thumbnail: what the loop records\<close>

lemma move_to_not_empty: "move_to p \<noteq> []"
  by (simp add: move_to_def)

lemma record_point_fields:
  "points (record_point st b) =
     points st @
     map line_to (map snd (filter (\<lambda>b. \<not> contains ''numbering-label'' (fst b)) [b])) \<and>
   move_to_start_position (record_point st b) =
     origin_of (move_to_start_position st)
       (map snd (filter (\<lambda>b. \<not> contains ''numbering-label'' (fst b)) [b])) \<and>
   width (record_point st b) = width st \<and> height (record_point st b) = height st"
  by (cases b) (simp add: record_point_def Let_def origin_of_def line_to_def move_to_def)

lemma origin_of_append: "origin_of (origin_of m ps) qs = origin_of m (ps @ qs)"
  by (cases ps) (auto simp: origin_of_def move_to_not_empty split: list.splits)

lemma foldl_record_point:
  "points (foldl record_point st bs) =
     points st @
     map line_to (map snd (filter (\<lambda>b. \<not> contains ''numbering-label'' (fst b)) bs)) \<and>
   move_to_start_position (foldl record_point st bs) =
     origin_of (move_to_start_position st)
       (map snd (filter (\<lambda>b. \<not> contains ''numbering-label'' (fst b)) bs)) \<and>
   width (foldl record_point st bs) = width st \<and>
   height (foldl record_point st bs) = height st"
proof (induction bs arbitrary: st)
  case Nil
  show ?case by (simp add: origin_of_def)
next
  case (Cons b bs)
  have "filter (\<lambda>b. \<not> contains ''numbering-label'' (fst b)) (b # bs) =
        filter (\<lambda>b. \<not> contains ''numbering-label'' (fst b)) [b] @
        filter (\<lambda>b. \<not> contains ''numbering-label'' (fst b)) bs"
    by simp
  then show ?case
    using record_point_fields [of st b]
    by (simp only: foldl_Cons Cons.IH map_append origin_of_append append_assoc)
qed

lemma scan_line_points:
  "points (scan_line st line) = points st @ map line_to (line_points line) \<and>
   move_to_start_position (scan_line st line) =
     origin_of (move_to_start_position st) (line_points line)"
  by (simp add: scan_line_def Let_def foldl_record_point line_points_def)

lemma foldl_scan_line:
  "points (foldl scan_line st ls) = points st @ map line_to (concat (map line_points ls)) \<and>
   move_to_start_position (foldl scan_line st ls) =
     origin_of (move_to_start_position st) (concat (map line_points ls))"
proof (induction ls arbitrary: st)
  case Nil
  show ?case by (simp add: origin_of_def)
next
  case (Cons l ls)
  show ?case by (simp add: Cons.IH scan_line_points origin_of_append)
qed

lemma scan_image_points:
  "points (scan_image img) = map line_to (qualifying_points img)"
  "move_to_start_position (scan_image img) =
     (case qualifying_points img of [] \<Rightarrow> None | p # _ \<Rightarrow> Some (move_to p))"
  by (simp_all add: scan_image_def foldl_scan_line qualifying_points_def
        initial_thumb_state_def origin_of_def)

lemma generate_thumbnail_Inr:
  assumes "generate_thumbnail colorhash img description = Inr t"
  shows "\<exists>w h m. first_group (width (scan_image img)) = Inr w \<and>
           first_group (height (scan_image img)) = Inr h \<and>
           move_to_start_position (scan_image img) = Some m \<and>
           t = thumbnail_head w h (colorhash description)
                 (stroke_width (length (points (scan_image img)))) @ m @
               join '' '' (points (scan_image img)) @ [DQ] @ ''/></svg>''"
  using assms
  by (auto simp: generate_thumbnail_def Let_def split: sum.splits option.splits)

lemma two_points_thumbnail:
  "generate_thumbnail (\<lambda>_. ''#abc'') diagram_two_points ''d'' =
     Inr (thumbnail_head ''10'' ''20'' ''#abc'' ''3'' @ ''M1 2 L1 2 L5 6'' @ [DQ] @ ''/></svg>'')"
  by code_simp

lemma two_points_qualifying:
  "qualifying_points diagram_two_points = [(''1'', ''2''), (''5'', ''6'')]"
  by code_simp

lemma no_points_qualifying: "qualifying_points diagram_no_points = []"
  by code_simp

section \<open>Stroke width\<close>

text \<open>
  C6.  The stroke width written into a thumbnail is \<open>stroke_width n\<close> for the number \<open>n\<close>
  of recorded points and depends on nothing else: below 200 points it is 3, from 200 to
  499 it is 4, from 500 to 2999 it is 4, and from 3000 on it is 2.  So 150 points give 3
  and 3500 points give 2.
\<close>

theorem stroke_width_by_point_count:
  "(generate_thumbnail colorhash img description = Inr t \<longrightarrow>
      (\<exists>w h path. t = thumbnail_head w h (colorhash description)
                        (stroke_width (length (points (scan_image img)))) @ path)) \<and>
   (n < 200 \<longrightarrow> stroke_width n = ''3'') \<and>
   (200 \<le> n \<and> n < 500 \<longrightarrow> stroke_width n = ''4'') \<and>
   (500 \<le> n \<and> n < 3000 \<longrightarrow> stroke_width n = ''4'') \<and>
   (3000 \<le> n \<longrightarrow> stroke_width n = ''2'') \<and>
   stroke_width 150 = ''3'' \<and> stroke_width 3500 = ''2''"
proof -
  have "\<exists>w h path. t = thumbnail_head w h (colorhash description)
                        (stroke_width (length (points (scan_image img)))) @ path"
    if "generate_thumbnail colorhash img description = Inr t"
    using generate_thumbnail_Inr [OF that] by blast
  then show ?thesis
    by (simp add: stroke_width_def)
qed

theorem stroke_width_by_point_count_witness:
  "generate_thumbnail (\<lambda>_. ''#abc'') diagram_two_points ''d'' =
     Inr (thumbnail_head ''10'' ''20'' ''#abc'' ''3'' @ ''M1 2 L1 2 L5 6'' @ [DQ] @ ''/></svg>'') \<and>
   (\<exists>w h path.
      thumbnail_head ''10'' ''20'' ''#abc'' ''3'' @ ''M1 2 L1 2 L5 6'' @ [DQ] @ ''/></svg>'' =
      thumbnail_head w h ''#abc''
        (stroke_width (length (points (scan_image diagram_two_points)))) @ path) \<and>
   stroke_width 150 = ''3'' \<and> stroke_width 300 = ''4'' \<and>
   stroke_width 1000 = ''4'' \<and> stroke_width 3500 = ''2''"
proof -
  let ?t = "thumbnail_head ''10'' ''20'' ''#abc'' ''3'' @ ''M1 2 L1 2 L5 6'' @ [DQ] @ ''/></svg>''"
  note run = two_points_thumbnail
  have a: "(150::nat) < 200" and b: "(200::nat) \<le> 300 \<and> (300::nat) < 500"
    and c: "(500::nat) \<le> 1000 \<and> (1000::nat) < 3000" and d: "(3000::nat) \<le> 3500"
    by simp_all
  from stroke_width_by_point_count [of "\<lambda>_. ''#abc''" diagram_two_points "''d''" ?t 150] run a
  have 1: "\<exists>w h path. ?t = thumbnail_head w h ''#abc''
             (stroke_width (length (points (scan_image diagram_two_points)))) @ path"
    and 2: "stroke_width 150 = ''3''"
    by blast+
  from stroke_width_by_point_count [of "\<lambda>_. ''#abc''" diagram_two_points "''d''" ?t 300] b
  have 3: "stroke_width 300 = ''4''" by blast
  from stroke_width_by_point_count [of "\<lambda>_. ''#abc''" diagram_two_points "''d''" ?t 1000] c
  have 4: "stroke_width 1000 = ''4''" by blast
  from stroke_width_by_point_count [of "\<lambda>_. ''#abc''" diagram_two_points "''d''" ?t 3500] d
  have 5: "stroke_width 3500 = ''2''" by blast
  from run 1 2 3 4 5 show ?thesis by blast
qed

section \<open>A diagram without points\<close>

text \<open>
  C7.  Whenever a diagram has no qualifying point, \<^verbatim>\<open>generate_thumbnail\<close> returns no
  document: \<^verbatim>\<open>move_to_start_position\<close> is still \<^verbatim>\<open>None\<close> when it is appended to the
  string, which raises \<^verbatim>\<open>TypeError\<close> (unless reading the width or the height has
  raised before).  The claim of an empty but valid thumbnail fails on the code.
\<close>

theorem no_points_raises:
  "qualifying_points img = [] \<Longrightarrow>
   generate_thumbnail colorhash img description \<in>
     {Inl UnboundLocalError, Inl IndexError, Inl TypeError}"
  by (simp add: generate_thumbnail_def Let_def scan_image_points first_group_def
        split: sum.splits option.splits list.splits)

theorem no_points_raises_witness:
  "qualifying_points diagram_no_points = [] \<and>
   generate_thumbnail (\<lambda>_. ''#abc'') diagram_no_points ''d'' \<in>
     {Inl UnboundLocalError, Inl IndexError, Inl TypeError}"
proof -
  have h: "qualifying_points diagram_no_points = []"
    by (rule no_points_qualifying)
  from h no_points_raises [OF h] show ?thesis by blast
qed

lemma no_points_TypeError:
  "generate_thumbnail colorhash diagram_no_points description = Inl TypeError"
  by (simp add: generate_thumbnail_def Let_def scan_image_def scan_line_def
        diagram_no_points_def initial_thumb_state_def first_group_def match_attr_def
        match_text_def digits1_def opt_fraction_def is_digit_def)

section \<open>The path\<close>

text \<open>
  C8, as the code has it.  The qualifying points are recorded in the order the document
  has them, none dropped and none merged.  The first of them gives the move-to origin,
  and every one of them, the first included, gives a line-to segment, in that order.
\<close>

theorem path_in_encounter_order:
  "points (scan_image img) = map line_to (qualifying_points img) \<and>
   move_to_start_position (scan_image img) =
     (case qualifying_points img of [] \<Rightarrow> None | p # _ \<Rightarrow> Some (move_to p)) \<and>
   (generate_thumbnail colorhash img description = Inr t \<longrightarrow>
      (\<exists>w h p ps. qualifying_points img = p # ps \<and>
         t = thumbnail_head w h (colorhash description) (stroke_width (length (p # ps))) @
             move_to p @ join '' '' (map line_to (p # ps)) @ [DQ] @ ''/></svg>''))"
proof -
  have "\<exists>w h p ps. qualifying_points img = p # ps \<and>
         t = thumbnail_head w h (colorhash description) (stroke_width (length (p # ps))) @
             move_to p @ join '' '' (map line_to (p # ps)) @ [DQ] @ ''/></svg>''"
    if run: "generate_thumbnail colorhash img description = Inr t"
  proof -
    from generate_thumbnail_Inr [OF run] obtain w h m where
      m: "move_to_start_position (scan_image img) = Some m" and
      t: "t = thumbnail_head w h (colorhash description)
                (stroke_width (length (points (scan_image img)))) @ m @
              join '' '' (points (scan_image img)) @ [DQ] @ ''/></svg>''"
      by blast
    from m obtain p ps where q: "qualifying_points img = p # ps" and mp: "m = move_to p"
      by (auto simp: scan_image_points split: list.splits)
    from t q mp show ?thesis
      by (auto simp: scan_image_points)
  qed
  then show ?thesis
    by (simp add: scan_image_points)
qed

theorem path_in_encounter_order_witness:
  "generate_thumbnail (\<lambda>_. ''#abc'') diagram_two_points ''d'' =
     Inr (thumbnail_head ''10'' ''20'' ''#abc'' ''3'' @ ''M1 2 L1 2 L5 6'' @ [DQ] @ ''/></svg>'') \<and>
   (\<exists>w h p ps. qualifying_points diagram_two_points = p # ps \<and>
      thumbnail_head ''10'' ''20'' ''#abc'' ''3'' @ ''M1 2 L1 2 L5 6'' @ [DQ] @ ''/></svg>'' =
      thumbnail_head w h ''#abc'' (stroke_width (length (p # ps))) @
      move_to p @ join '' '' (map line_to (p # ps)) @ [DQ] @ ''/></svg>'')"
  using two_points_thumbnail
    path_in_encounter_order [of diagram_two_points "\<lambda>_. ''#abc''" "''d''"
      "thumbnail_head ''10'' ''20'' ''#abc'' ''3'' @ ''M1 2 L1 2 L5 6'' @ [DQ] @ ''/></svg>''"]
  by blast

text \<open>
  The claim as the specification states it, that only the points after the first become
  line-to segments, fails on a diagram with two points: the path is
  \<^verbatim>\<open>M1 2 L1 2 L5 6\<close>, with a line-to for the first point as well.
\<close>

theorem first_point_is_also_line_to:
  "qualifying_points diagram_two_points = [(''1'', ''2''), (''5'', ''6'')] \<and>
   generate_thumbnail (\<lambda>_. ''#abc'') diagram_two_points ''d'' =
     Inr (thumbnail_head ''10'' ''20'' ''#abc'' ''3'' @ ''M1 2 L1 2 L5 6'' @ [DQ] @ ''/></svg>'') \<and>
   points (scan_image diagram_two_points) \<noteq>
     map line_to (tl (qualifying_points diagram_two_points))"
  using two_points_thumbnail two_points_qualifying
  by (simp add: scan_image_points)

section \<open>The two filtering policies\<close>









section \<open>The metadata table\<close>

lemma foldl_write_line:
  "foldl (\<lambda>out line. out @ [relabel folder line]) acc ls = acc @ map (relabel folder) ls"
  by (induction ls arbitrary: acc) simp_all

lemma write_folder_append:
  "write_folder hits_files f_out folder = f_out @ relabelled hits_files folder"
  by (simp add: write_folder_def relabelled_def foldl_write_line split: option.splits)

lemma foldl_write_folder:
  "foldl (write_folder hits_files) acc folders =
     acc @ concat (map (relabelled hits_files) folders)"
  by (induction folders arbitrary: acc) (simp_all add: write_folder_append)

lemma organise_metadata_concat:
  "organise_metadata hits_files folders = concat (map (relabelled hits_files) folders)"
  by (simp add: organise_metadata_def foldl_write_folder)

lemma draw_metadata:
  "metadata_tsv (draw e all_seq_ids out None skip s) =
     Some (organise_metadata (hits_txt (draw e all_seq_ids out None skip s))
             (result_folders out))"
  by (simp add: draw_def run_cascade_def Let_def)

text \<open>
  C4, as the code has it.  The table that \<^verbatim>\<open>draw\<close> writes is the concatenation of the
  relabelled hit lists in the order of the list \<^verbatim>\<open>result_folders\<close>: CRW, RiboVision SSU,
  RiboVision LSU, Rfam, GtRNAdb, Rfam tRNA, RNAse P.
\<close>

theorem metadata_in_result_folders_order:
  "metadata_tsv (draw e all_seq_ids out None skip s) =
     Some (organise_metadata (hits_txt (draw e all_seq_ids out None skip s))
             (result_folders out)) \<and>
   organise_metadata hits_files (result_folders out) =
     relabelled hits_files (crw_output out) @
     relabelled hits_files (ribovision_ssu_output out) @
     relabelled hits_files (ribovision_lsu_output out) @
     relabelled hits_files (rfam_output out) @
     relabelled hits_files (gtrnadb_output out) @
     relabelled hits_files (rfam_trna_output out) @
     relabelled hits_files (rnasep_output out)"
  by (simp add: draw_metadata organise_metadata_concat result_folders_def)

text \<open>
  The order is not the order of the cascade.  In the run on three sequences the Rfam
  stage is the first to run and claims \<open>A\<close>, the RiboVision SSU stage runs second and
  claims \<open>B\<close>, and the table lists \<open>B\<close> before \<open>A\<close>.
\<close>

theorem metadata_not_in_cascade_order:
  "map fst (stage_calls scenario_run) = cascade_folders ''out'' \<and>
   map (get_hits (hits_txt scenario_run)) (cascade_folders ''out'') =
     [{''A''}, {''B''}, {}, {}, {}, {}, {}] \<and>
   metadata_tsv scenario_run =
     Some [''B'' @ [TAB] @ ''EC_SSU_3D'' @ [TAB] @ ''RiboVision'' @ [NL],
           ''A'' @ [TAB] @ ''RF00001'' @ [TAB] @ ''Rfam'' @ [NL]] \<and>
   metadata_tsv scenario_run \<noteq>
     Some (concat (map (relabelled (hits_txt scenario_run)) (cascade_folders ''out'')))"
  by code_simp

section \<open>The label of a CRW row\<close>

lemma prefix_before_separator:
  assumes "c \<notin> set old"
  shows "prefix old (xs @ c # ys) \<longleftrightarrow> prefix old xs"
  using assms by (auto simp: prefix_append prefix_Cons)

lemma replace_from_separator:
  assumes "c \<notin> set old" and "old \<noteq> []"
  shows "k \<le> length xs \<Longrightarrow>
         replace_from old new k (xs @ c # ys) =
           replace_from old new k xs @ c # replace_from old new 0 ys"
proof (induction xs arbitrary: k)
  case Nil
  from assms have "\<not> prefix old (c # ys)"
    by (cases old) (auto simp: prefix_Cons)
  with Nil show ?case by simp
next
  case (Cons x xs)
  show ?case
  proof (cases k)
    case (Suc k')
    with Cons show ?thesis by simp
  next
    case 0
    have p: "prefix old (x # xs @ c # ys) \<longleftrightarrow> prefix old (x # xs)"
      using prefix_before_separator [OF assms(1), of "x # xs" ys] by simp
    show ?thesis
    proof (cases "prefix old (x # xs)")
      case True
      then have "length old \<le> Suc (length xs)"
        by (auto dest: prefix_length_le)
      then have "length old - 1 \<le> length xs" by simp
      with True p 0 Cons.IH show ?thesis by simp
    next
      case False
      with p 0 Cons.IH [of 0] show ?thesis by simp
    qed
  qed
qed

lemma replace_separator:
  assumes "c \<notin> set old" and "old \<noteq> []"
  shows "replace old new (xs @ c # ys) = replace old new xs @ c # replace old new ys"
  using assms replace_from_separator [OF assms, of 0 xs new ys]
  by (simp add: replace_def)

text \<open>
  In a folder whose path has \<^verbatim>\<open>crw\<close> in it and not \<^verbatim>\<open>gtrnadb\<close>, a row with the status
  \<^verbatim>\<open>FAIL\<close> is written with the label \<^verbatim>\<open>CRW\<close> in its place.
\<close>

lemma relabel_crw_fail_row:
  assumes "\<not> contains ''gtrnadb'' folder" and "contains ''crw'' folder"
  shows "relabel folder (seq_id @ [TAB] @ model_id @ [TAB] @ ''FAIL'' @ [NL]) =
           replace ''FAIL'' ''CRW'' (replace ''PASS'' ''CRW'' seq_id) @ [TAB] @
           replace ''FAIL'' ''CRW'' (replace ''PASS'' ''CRW'' model_id) @ [TAB] @
           ''CRW'' @ [NL]"
proof -
  have 1: "replace ''PASS'' ''CRW'' (seq_id @ TAB # model_id @ TAB # ''FAIL'' @ [NL]) =
        replace ''PASS'' ''CRW'' seq_id @ TAB # replace ''PASS'' ''CRW'' model_id @
        TAB # ''FAIL'' @ [NL]"
    by (simp add: replace_separator) (simp add: replace_def)
  show ?thesis using assms
    by (simp add: relabel_def 1 replace_separator) (simp add: replace_def)
qed

lemma crw_folder_of_out:
  "\<not> contains ''gtrnadb'' (crw_output ''out'') \<and> contains ''crw'' (crw_output ''out'')"
  by (simp add: crw_output_def path_join_def)

text \<open>
  C5.  The stage of a folder is told from its path, which starts with the output folder
  the user names, and \<^verbatim>\<open>gtrnadb\<close> is looked for before \<^verbatim>\<open>crw\<close>.  For the output folder
  \<^verbatim>\<open>gtrnadb-run\<close> the CRW folder is \<^verbatim>\<open>gtrnadb-run/crw\<close>, its rows go through the GtRNAdb
  branch, which replaces \<^verbatim>\<open>PASS\<close> only, and a \<^verbatim>\<open>FAIL\<close> row of the CRW stage reaches the
  table with its status \<^verbatim>\<open>FAIL\<close>.
\<close>

theorem crw_fail_row_keeps_fail:
  "crw_output ''gtrnadb-run'' = ''gtrnadb-run/crw'' \<and>
   hits_crw_fail (crw_output ''gtrnadb-run'') =
     Some [''seq1'' @ [TAB] @ ''d.16.b.E.coli'' @ [TAB] @ ''FAIL'' @ [NL]] \<and>
   organise_metadata hits_crw_fail (result_folders ''gtrnadb-run'') =
     [''seq1'' @ [TAB] @ ''d.16.b.E.coli'' @ [TAB] @ ''FAIL'' @ [NL]]"
  by code_simp

section \<open>The short circuit\<close>

lemma fold_hits_fields [simp]:
  "hits (fold_hits f s) = hits s \<union> get_hits (hits_txt s) f"
  "hits_txt (fold_hits f s) = hits_txt s"
  "long_out (fold_hits f s) = long_out s"
  "stage_calls (fold_hits f s) = stage_calls s"
  "tool_runs (fold_hits f s) = tool_runs s"
  by (simp_all add: fold_hits_def)

lemma guarded_skip:
  "all_seq_ids - (hits s \<union> get_hits (hits_txt s) p) = {} \<Longrightarrow>
   guarded all_seq_ids p t stage s = fold_hits p s"
  by (simp add: guarded_def Let_def)

lemma no_invocation_trans:
  "no_invocation s s1 \<Longrightarrow> no_invocation s1 s2 \<Longrightarrow> no_invocation s s2"
  by (simp add: no_invocation_def)

lemma no_invocation_fold_hits: "no_invocation s (fold_hits p s)"
  by (simp add: no_invocation_def)

lemma all_claimed_after_fold:
  "all_seq_ids - (hits s \<union> get_hits (hits_txt s) p) = {} \<Longrightarrow>
   all_seq_ids - (hits (fold_hits p s) \<union> X) = {}"
  by auto

lemma skip_rfam_trna:
  assumes "all_seq_ids - (hits s \<union> get_hits (hits_txt s) (gtrnadb_output out)) = {}"
  shows "no_invocation s (cascade_from_rfam_trna e all_seq_ids out skip s)"
  using assms
  by (simp add: cascade_from_rfam_trna_def guarded_skip no_invocation_fold_hits)

lemma skip_gtrnadb:
  assumes "all_seq_ids - (hits s \<union> get_hits (hits_txt s) (rnasep_output out)) = {}"
  shows "no_invocation s (cascade_from_gtrnadb e all_seq_ids out skip s)"
proof -
  have "no_invocation (fold_hits (rnasep_output out) s)
          (cascade_from_rfam_trna e all_seq_ids out skip (fold_hits (rnasep_output out) s))"
    by (rule skip_rfam_trna) (rule all_claimed_after_fold [OF assms])
  then show ?thesis
    by (simp add: cascade_from_gtrnadb_def guarded_skip [OF assms])
       (rule no_invocation_trans [OF no_invocation_fold_hits])
qed

lemma skip_rnasep:
  assumes "all_seq_ids - (hits s \<union> get_hits (hits_txt s) (ribovision_lsu_output out)) = {}"
  shows "no_invocation s (cascade_from_rnasep e all_seq_ids out skip s)"
proof -
  have "no_invocation (fold_hits (ribovision_lsu_output out) s)
          (cascade_from_gtrnadb e all_seq_ids out skip
             (fold_hits (ribovision_lsu_output out) s))"
    by (rule skip_gtrnadb) (rule all_claimed_after_fold [OF assms])
  then show ?thesis
    by (simp add: cascade_from_rnasep_def guarded_skip [OF assms])
       (rule no_invocation_trans [OF no_invocation_fold_hits])
qed

lemma skip_lsu:
  assumes "all_seq_ids - (hits s \<union> get_hits (hits_txt s) (crw_output out)) = {}"
  shows "no_invocation s (cascade_from_lsu e all_seq_ids out skip s)"
proof -
  have "no_invocation (fold_hits (crw_output out) s)
          (cascade_from_rnasep e all_seq_ids out skip (fold_hits (crw_output out) s))"
    by (rule skip_rnasep) (rule all_claimed_after_fold [OF assms])
  then show ?thesis
    by (simp add: cascade_from_lsu_def guarded_skip [OF assms])
       (rule no_invocation_trans [OF no_invocation_fold_hits])
qed

lemma skip_crw:
  assumes "all_seq_ids - (hits s \<union> get_hits (hits_txt s) (ribovision_ssu_output out)) = {}"
  shows "no_invocation s (cascade_from_crw e all_seq_ids out skip s)"
proof -
  have "no_invocation (fold_hits (ribovision_ssu_output out) s)
          (cascade_from_lsu e all_seq_ids out skip (fold_hits (ribovision_ssu_output out) s))"
    by (rule skip_lsu) (rule all_claimed_after_fold [OF assms])
  then show ?thesis
    by (simp add: cascade_from_crw_def guarded_skip [OF assms])
       (rule no_invocation_trans [OF no_invocation_fold_hits])
qed

lemma skip_ssu:
  assumes "all_seq_ids - (hits s \<union> get_hits (hits_txt s) (rfam_output out)) = {}"
  shows "no_invocation s (cascade_from_ssu e all_seq_ids out skip s)"
proof -
  have "no_invocation (fold_hits (rfam_output out) s)
          (cascade_from_crw e all_seq_ids out skip (fold_hits (rfam_output out) s))"
    by (rule skip_crw) (rule all_claimed_after_fold [OF assms])
  then show ?thesis
    by (simp add: cascade_from_ssu_def guarded_skip [OF assms])
       (rule no_invocation_trans [OF no_invocation_fold_hits])
qed

lemma rfam_claims_all:
  "{''A''} - (hits (rfam_stage scenario_env {''A''} ''out'' False empty_state) \<union>
             get_hits (hits_txt (rfam_stage scenario_env {''A''} ''out'' False empty_state))
               (rfam_output ''out'')) = {}"
  by code_simp

lemma all_claimed_state_empty:
  "{''A''} - (hits all_claimed_state \<union> get_hits (hits_txt all_claimed_state) f) = {}"
  by (simp add: all_claimed_state_def empty_state_def)

text \<open>
  C2, as the code has it.  At each comment line after the first stage, from
  \<^verbatim>\<open># RiboVision SSU\<close> to \<^verbatim>\<open># Rfam tRNA\<close>: when the working set (the input ids minus
  the hits accumulated so far, those of the previous stage included) is empty there, the
  rest of the cascade invokes no stage, runs no classifier and writes no file.
\<close>

theorem short_circuit_after_first_stage:
  "(all_seq_ids - (hits s \<union> get_hits (hits_txt s) (rfam_output out)) = {} \<longrightarrow>
      no_invocation s (cascade_from_ssu e all_seq_ids out skip s)) \<and>
   (all_seq_ids - (hits s \<union> get_hits (hits_txt s) (ribovision_ssu_output out)) = {} \<longrightarrow>
      no_invocation s (cascade_from_crw e all_seq_ids out skip s)) \<and>
   (all_seq_ids - (hits s \<union> get_hits (hits_txt s) (crw_output out)) = {} \<longrightarrow>
      no_invocation s (cascade_from_lsu e all_seq_ids out skip s)) \<and>
   (all_seq_ids - (hits s \<union> get_hits (hits_txt s) (ribovision_lsu_output out)) = {} \<longrightarrow>
      no_invocation s (cascade_from_rnasep e all_seq_ids out skip s)) \<and>
   (all_seq_ids - (hits s \<union> get_hits (hits_txt s) (rnasep_output out)) = {} \<longrightarrow>
      no_invocation s (cascade_from_gtrnadb e all_seq_ids out skip s)) \<and>
   (all_seq_ids - (hits s \<union> get_hits (hits_txt s) (gtrnadb_output out)) = {} \<longrightarrow>
      no_invocation s (cascade_from_rfam_trna e all_seq_ids out skip s))"
  by (intro conjI impI skip_ssu skip_crw skip_lsu skip_rnasep skip_gtrnadb skip_rfam_trna)

theorem short_circuit_after_first_stage_witness:
  "{''A''} - (hits (rfam_stage scenario_env {''A''} ''out'' False empty_state) \<union>
             get_hits (hits_txt (rfam_stage scenario_env {''A''} ''out'' False empty_state))
               (rfam_output ''out'')) = {} \<and>
   no_invocation (rfam_stage scenario_env {''A''} ''out'' False empty_state)
     (cascade_from_ssu scenario_env {''A''} ''out'' False
        (rfam_stage scenario_env {''A''} ''out'' False empty_state)) \<and>
   {''A''} - (hits all_claimed_state \<union>
             get_hits (hits_txt all_claimed_state) (ribovision_ssu_output ''out'')) = {} \<and>
   no_invocation all_claimed_state
     (cascade_from_crw scenario_env {''A''} ''out'' False all_claimed_state) \<and>
   {''A''} - (hits all_claimed_state \<union>
             get_hits (hits_txt all_claimed_state) (crw_output ''out'')) = {} \<and>
   no_invocation all_claimed_state
     (cascade_from_lsu scenario_env {''A''} ''out'' False all_claimed_state) \<and>
   {''A''} - (hits all_claimed_state \<union>
             get_hits (hits_txt all_claimed_state) (ribovision_lsu_output ''out'')) = {} \<and>
   no_invocation all_claimed_state
     (cascade_from_rnasep scenario_env {''A''} ''out'' False all_claimed_state) \<and>
   {''A''} - (hits all_claimed_state \<union>
             get_hits (hits_txt all_claimed_state) (rnasep_output ''out'')) = {} \<and>
   no_invocation all_claimed_state
     (cascade_from_gtrnadb scenario_env {''A''} ''out'' False all_claimed_state) \<and>
   {''A''} - (hits all_claimed_state \<union>
             get_hits (hits_txt all_claimed_state) (gtrnadb_output ''out'')) = {} \<and>
   no_invocation all_claimed_state
     (cascade_from_rfam_trna scenario_env {''A''} ''out'' False all_claimed_state)"
proof -
  note w1 = short_circuit_after_first_stage
      [where all_seq_ids = "{''A''}" and out = "''out''" and e = scenario_env and skip = False
         and s = "rfam_stage scenario_env {''A''} ''out'' False empty_state"]
  note w2 = short_circuit_after_first_stage
      [where all_seq_ids = "{''A''}" and out = "''out''" and e = scenario_env and skip = False
         and s = all_claimed_state]
  note p = all_claimed_state_empty
  from w1 have c1: "no_invocation (rfam_stage scenario_env {''A''} ''out'' False empty_state)
     (cascade_from_ssu scenario_env {''A''} ''out'' False
        (rfam_stage scenario_env {''A''} ''out'' False empty_state))"
    using rfam_claims_all by (elim conjE) (erule mp)
  from w2 have c2: "no_invocation all_claimed_state
     (cascade_from_crw scenario_env {''A''} ''out'' False all_claimed_state)"
    using p [of "ribovision_ssu_output ''out''"] by (elim conjE) (erule mp)
  from w2 have c3: "no_invocation all_claimed_state
     (cascade_from_lsu scenario_env {''A''} ''out'' False all_claimed_state)"
    using p [of "crw_output ''out''"] by (elim conjE) (erule mp)
  from w2 have c4: "no_invocation all_claimed_state
     (cascade_from_rnasep scenario_env {''A''} ''out'' False all_claimed_state)"
    using p [of "ribovision_lsu_output ''out''"] by (elim conjE) (erule mp)
  from w2 have c5: "no_invocation all_claimed_state
     (cascade_from_gtrnadb scenario_env {''A''} ''out'' False all_claimed_state)"
    using p [of "rnasep_output ''out''"] by (elim conjE) (erule mp)
  from w2 have c6: "no_invocation all_claimed_state
     (cascade_from_rfam_trna scenario_env {''A''} ''out'' False all_claimed_state)"
    using p [of "gtrnadb_output ''out''"] by (elim conjE) (erule mp)
  from rfam_claims_all c1 p c2 c3 c4 c5 c6 show ?thesis
    by (intro conjI)
qed

text \<open>
  The first stage has no such guard.  On an input without sequences the working set is
  empty from the start, \<open>{} - {} = {}\<close>, and the Rfam stage is invoked all the same and
  runs the classifier.
\<close>

theorem first_stage_runs_on_empty_working_set:
  "({} :: string set) - hits (empty_state\<lparr>hits := {}\<rparr>) = {} \<and>
   stage_calls (draw scenario_env {} ''out'' None False empty_state) =
     [(rfam_output ''out'', {})] \<and>
   tool_runs (draw scenario_env {} ''out'' None False empty_state) = [(''cms/rfam'', {})]"
  by code_simp

section \<open>The first stage and the guards of the later stages\<close>

lemma extends_fold_hits: "extends [] s (fold_hits p s)"
  by (simp add: extends_def)

lemma extends_trans:
  assumes "extends fs s s1" and "extends gs s1 s2"
  shows "extends (fs @ gs) s s2"
proof -
  from assms obtain x y where "tool_runs s1 = tool_runs s @ x" "tool_runs s2 = tool_runs s1 @ y"
    unfolding extends_def by blast
  then have "tool_runs s2 = tool_runs s @ (x @ y)" by simp
  then have 1: "\<exists>ext. tool_runs s2 = tool_runs s @ ext" by blast
  from assms have 2: "\<forall>g. g \<notin> set (fs @ gs) \<longrightarrow> hits_txt s2 g = hits_txt s g"
    unfolding extends_def by simp
  from 1 2 show ?thesis unfolding extends_def by (rule conjI)
qed

lemma extends_get_ribotyper_output:
  "extends [f] s (get_ribotyper_output e ids f lib skip s)"
  by (simp add: extends_def get_ribotyper_output_def Let_def)

lemma extends_gtrnadb_body: "extends [gtrnadb_output out] s (gtrnadb_body e out ids s)"
  by (simp add: extends_def gtrnadb_body_def Let_def split: option.splits)

lemma extends_rfam_trna_body: "extends [rfam_trna_output out] s (rfam_trna_body e out ids s)"
  by (simp add: extends_def rfam_trna_body_def Let_def split: option.splits)

lemma extends_stage_calls_upd:
  "extends fs (s\<lparr>stage_calls := c\<rparr>) s' \<Longrightarrow> extends fs s s'"
  by (simp add: extends_def)

lemma guarded_extends:
  assumes "\<And>ids s'. extends [t] s' (stage ids s')"
  shows "extends [t] s (guarded a p t stage s)"
proof (cases "a - hits (fold_hits p s) = {}")
  case True
  then have "guarded a p t stage s = fold_hits p s"
    by (simp add: guarded_def Let_def)
  then show ?thesis by (simp add: extends_def)
next
  case False
  let ?s1 = "(fold_hits p s)\<lparr>stage_calls :=
               stage_calls (fold_hits p s) @ [(t, a - hits (fold_hits p s))]\<rparr>"
  from False have g: "guarded a p t stage s = stage (a - hits (fold_hits p s)) ?s1"
    by (simp add: guarded_def Let_def)
  have "extends [t] ?s1 (stage (a - hits (fold_hits p s)) ?s1)" by (rule assms)
  then show ?thesis unfolding g by (simp add: extends_def fold_hits_def)
qed


lemma extends_from_rfam_trna:
  "extends [rfam_trna_output out] s (cascade_from_rfam_trna e a out skip s)"
  unfolding cascade_from_rfam_trna_def
  by (rule guarded_extends) (rule extends_rfam_trna_body)

lemma extends_from_gtrnadb:
  "extends [gtrnadb_output out, rfam_trna_output out] s (cascade_from_gtrnadb e a out skip s)"
  unfolding cascade_from_gtrnadb_def
  using extends_trans [OF guarded_extends extends_from_rfam_trna, of "gtrnadb_output out"]
  by (simp add: extends_gtrnadb_body)

lemma extends_from_rnasep:
  "extends [rnasep_output out, gtrnadb_output out, rfam_trna_output out] s
     (cascade_from_rnasep e a out skip s)"
  unfolding cascade_from_rnasep_def
  using extends_trans [OF guarded_extends extends_from_gtrnadb, of "rnasep_output out"]
  by (simp add: rnasep_draw_def extends_get_ribotyper_output)

lemma extends_from_lsu:
  "extends [ribovision_lsu_output out, rnasep_output out, gtrnadb_output out,
            rfam_trna_output out] s
     (cascade_from_lsu e a out skip s)"
  unfolding cascade_from_lsu_def
  using extends_trans [OF guarded_extends extends_from_rnasep, of "ribovision_lsu_output out"]
  by (simp add: ribovision_draw_lsu_def extends_get_ribotyper_output)

lemma extends_from_crw:
  "extends [crw_output out, ribovision_lsu_output out, rnasep_output out, gtrnadb_output out,
            rfam_trna_output out] s
     (cascade_from_crw e a out skip s)"
  unfolding cascade_from_crw_def
  using extends_trans [OF guarded_extends extends_from_lsu, of "crw_output out"]
  by (simp add: rrna_draw_def extends_get_ribotyper_output)

lemma extends_from_ssu:
  "extends [ribovision_ssu_output out, crw_output out, ribovision_lsu_output out,
            rnasep_output out, gtrnadb_output out, rfam_trna_output out] s
     (cascade_from_ssu e a out skip s)"
  unfolding cascade_from_ssu_def
  using extends_trans [OF guarded_extends extends_from_crw, of "ribovision_ssu_output out"]
  by (simp add: ribovision_draw_ssu_def extends_get_ribotyper_output)

lemma guarded_run:
  assumes "working_subset a p s \<noteq> {}"
  shows "guarded a p t stage s =
           stage (working_subset a p s)
             ((fold_hits p s)\<lparr>stage_calls := stage_calls s @ [(t, working_subset a p s)]\<rparr>)"
  using assms by (simp add: guarded_def Let_def working_subset_def fold_hits_def)

lemma get_ribotyper_output_ran:
  assumes "long_out s0 f = long_out s f" and "tool_runs s0 = tool_runs s"
  shows "ribotyper_stage_ran e lib ids skip f s (get_ribotyper_output e ids f lib skip s0)"
  using assms
  by (simp add: ribotyper_stage_ran_def get_ribotyper_output_def Let_def split: option.splits)

lemma ran_then_extends:
  assumes r: "ribotyper_stage_ran e lib ids skip f s s1"
    and x: "extends fs s1 s2" and n: "f \<notin> set fs"
  shows "ribotyper_stage_ran e lib ids skip f s s2"
proof -
  from x n have h: "hits_txt s2 f = hits_txt s1 f"
    unfolding extends_def by blast
  from x obtain ext where t: "tool_runs s2 = tool_runs s1 @ ext"
    unfolding extends_def by blast
  have "\<exists>more. tool_runs s2 = tool_runs s @ (lib, ids) # more" if "long_out s f = None"
  proof -
    from r that obtain m where "tool_runs s1 = tool_runs s @ (lib, ids) # m"
      unfolding ribotyper_stage_ran_def by blast
    with t have "tool_runs s2 = tool_runs s @ (lib, ids) # (m @ ext)" by simp
    then show ?thesis by blast
  qed
  with r h show ?thesis
    unfolding ribotyper_stage_ran_def by simp
qed

lemma tool_ran_then_extends:
  assumes r: "tool_ran tool ids s s1" and x: "extends fs s1 s2"
  shows "tool_ran tool ids s s2"
proof -
  from r obtain m where "tool_runs s1 = tool_runs s @ (tool, ids) # m"
    unfolding tool_ran_def by blast
  moreover from x obtain ext where "tool_runs s2 = tool_runs s1 @ ext"
    unfolding extends_def by blast
  ultimately have "tool_runs s2 = tool_runs s @ (tool, ids) # (m @ ext)" by simp
  then show ?thesis unfolding tool_ran_def by blast
qed

lemma path_join_literal_inject:
  "\<not> prefix ''/'' b \<Longrightarrow> \<not> prefix ''/'' c \<Longrightarrow> path_join a b = path_join a c \<longleftrightarrow> b = c"
  by (simp add: path_join_def)

lemmas folder_defs =
  rfam_output_def ribovision_ssu_output_def crw_output_def ribovision_lsu_output_def
  rnasep_output_def gtrnadb_output_def rfam_trna_output_def

lemma distinct_cascade_folders: "distinct (cascade_folders out)"
  by (simp add: cascade_folders_def folder_defs path_join_literal_inject)

lemma ran_ssu:
  assumes "working_subset a (rfam_output out) s \<noteq> {}"
  shows "ribotyper_stage_ran e (RIBOVISION_SSU_CM_LIBRARY e)
           (working_subset a (rfam_output out) s) skip (ribovision_ssu_output out) s
           (cascade_from_ssu e a out skip s)"
  unfolding cascade_from_ssu_def guarded_run [OF assms] ribovision_draw_ssu_def
  by (rule ran_then_extends [OF get_ribotyper_output_ran extends_from_crw])
     (simp_all add: folder_defs path_join_literal_inject)

lemma ran_crw:
  assumes "working_subset a (ribovision_ssu_output out) s \<noteq> {}"
  shows "ribotyper_stage_ran e (CRW_CM_LIBRARY e)
           (working_subset a (ribovision_ssu_output out) s) skip (crw_output out) s
           (cascade_from_crw e a out skip s)"
  unfolding cascade_from_crw_def guarded_run [OF assms] rrna_draw_def
  by (rule ran_then_extends [OF get_ribotyper_output_ran extends_from_lsu])
     (simp_all add: folder_defs path_join_literal_inject)

lemma ran_lsu:
  assumes "working_subset a (crw_output out) s \<noteq> {}"
  shows "ribotyper_stage_ran e (RIBOVISION_LSU_CM_LIBRARY e)
           (working_subset a (crw_output out) s) skip (ribovision_lsu_output out) s
           (cascade_from_lsu e a out skip s)"
  unfolding cascade_from_lsu_def guarded_run [OF assms] ribovision_draw_lsu_def
  by (rule ran_then_extends [OF get_ribotyper_output_ran extends_from_rnasep])
     (simp_all add: folder_defs path_join_literal_inject)

lemma ran_rnasep:
  assumes "working_subset a (ribovision_lsu_output out) s \<noteq> {}"
  shows "ribotyper_stage_ran e (RNASEP_CM_LIBRARY e)
           (working_subset a (ribovision_lsu_output out) s) skip (rnasep_output out) s
           (cascade_from_rnasep e a out skip s)"
  unfolding cascade_from_rnasep_def guarded_run [OF assms] rnasep_draw_def
  by (rule ran_then_extends [OF get_ribotyper_output_ran extends_from_gtrnadb])
     (simp_all add: folder_defs path_join_literal_inject)

lemma gtrnadb_body_ran:
  "tool_runs s0 = tool_runs s \<Longrightarrow>
   tool_ran ''classify_trna_sequences'' ids s (gtrnadb_body e out ids s0)"
  by (simp add: tool_ran_def gtrnadb_body_def Let_def split: option.splits)

lemma rfam_trna_body_ran:
  "tool_runs s0 = tool_runs s \<Longrightarrow>
   tool_ran ''cmsearch_nohmm_mode'' ids s (rfam_trna_body e out ids s0)"
  by (simp add: tool_ran_def rfam_trna_body_def Let_def split: option.splits)

lemma ran_gtrnadb:
  assumes "working_subset a (rnasep_output out) s \<noteq> {}"
  shows "tool_ran ''classify_trna_sequences'' (working_subset a (rnasep_output out) s) s
           (cascade_from_gtrnadb e a out skip s)"
  unfolding cascade_from_gtrnadb_def guarded_run [OF assms]
  by (rule tool_ran_then_extends [OF gtrnadb_body_ran extends_from_rfam_trna]) simp

lemma ran_rfam_trna:
  assumes "working_subset a (gtrnadb_output out) s \<noteq> {}"
  shows "tool_ran ''cmsearch_nohmm_mode'' (working_subset a (gtrnadb_output out) s) s
           (cascade_from_rfam_trna e a out skip s)"
  unfolding cascade_from_rfam_trna_def guarded_run [OF assms]
  by (rule rfam_trna_body_ran) simp

lemma ran_rfam:
  "ribotyper_stage_ran e (path_join (CM_LIBRARY e) ''rfam'') a skip (rfam_output out) s
     (draw e a out None skip s)"
proof -
  have 1: "ribotyper_stage_ran e (path_join (CM_LIBRARY e) ''rfam'') a skip (rfam_output out) s
     (cascade_from_ssu e a out skip (rfam_stage e a out skip s))"
    unfolding rfam_stage_def
    by (rule ran_then_extends [OF get_ribotyper_output_ran extends_from_ssu])
       (simp_all add: folder_defs path_join_literal_inject)
  then show ?thesis
    by (simp add: draw_def run_cascade_def Let_def ribotyper_stage_ran_def)
qed

lemma skip_by_working_subset:
  "working_subset a (rfam_output out) s = {} \<Longrightarrow>
     no_invocation s (cascade_from_ssu e a out skip s)"
  "working_subset a (ribovision_ssu_output out) s = {} \<Longrightarrow>
     no_invocation s (cascade_from_crw e a out skip s)"
  "working_subset a (crw_output out) s = {} \<Longrightarrow>
     no_invocation s (cascade_from_lsu e a out skip s)"
  "working_subset a (ribovision_lsu_output out) s = {} \<Longrightarrow>
     no_invocation s (cascade_from_rnasep e a out skip s)"
  "working_subset a (rnasep_output out) s = {} \<Longrightarrow>
     no_invocation s (cascade_from_gtrnadb e a out skip s)"
  "working_subset a (gtrnadb_output out) s = {} \<Longrightarrow>
     no_invocation s (cascade_from_rfam_trna e a out skip s)"
  unfolding working_subset_def
  by (erule skip_ssu skip_crw skip_lsu skip_rnasep skip_gtrnadb skip_rfam_trna)+

text \<open>
  C10.  Without a forced template \<^verbatim>\<open>draw\<close> runs the Rfam stage on the whole input
  whatever the input is, also when it holds no sequence id: \<^verbatim>\<open>get_ribotyper_output\<close>
  writes the hit list of the Rfam folder, and runs the classifier on the input unless a
  report is already there.  Each of the six later stages is run exactly when its working
  subset (the input ids minus the hits accumulated so far) is not empty, and then on this
  subset; when the subset is empty nothing is invoked from there on.
\<close>

theorem first_stage_runs_later_stages_guarded:
  "ribotyper_stage_ran e (path_join (CM_LIBRARY e) ''rfam'') all_seq_ids skip (rfam_output out) s
     (draw e all_seq_ids out None skip s) \<and>
   ribotyper_stage_ran e (path_join (CM_LIBRARY e) ''rfam'') {} skip (rfam_output out) s
     (draw e {} out None skip s) \<and>
   (working_subset all_seq_ids (rfam_output out) s \<noteq> {} \<longrightarrow>
      ribotyper_stage_ran e (RIBOVISION_SSU_CM_LIBRARY e)
        (working_subset all_seq_ids (rfam_output out) s) skip (ribovision_ssu_output out) s
        (cascade_from_ssu e all_seq_ids out skip s)) \<and>
   (working_subset all_seq_ids (rfam_output out) s = {} \<longrightarrow>
      no_invocation s (cascade_from_ssu e all_seq_ids out skip s)) \<and>
   (working_subset all_seq_ids (ribovision_ssu_output out) s \<noteq> {} \<longrightarrow>
      ribotyper_stage_ran e (CRW_CM_LIBRARY e)
        (working_subset all_seq_ids (ribovision_ssu_output out) s) skip (crw_output out) s
        (cascade_from_crw e all_seq_ids out skip s)) \<and>
   (working_subset all_seq_ids (ribovision_ssu_output out) s = {} \<longrightarrow>
      no_invocation s (cascade_from_crw e all_seq_ids out skip s)) \<and>
   (working_subset all_seq_ids (crw_output out) s \<noteq> {} \<longrightarrow>
      ribotyper_stage_ran e (RIBOVISION_LSU_CM_LIBRARY e)
        (working_subset all_seq_ids (crw_output out) s) skip (ribovision_lsu_output out) s
        (cascade_from_lsu e all_seq_ids out skip s)) \<and>
   (working_subset all_seq_ids (crw_output out) s = {} \<longrightarrow>
      no_invocation s (cascade_from_lsu e all_seq_ids out skip s)) \<and>
   (working_subset all_seq_ids (ribovision_lsu_output out) s \<noteq> {} \<longrightarrow>
      ribotyper_stage_ran e (RNASEP_CM_LIBRARY e)
        (working_subset all_seq_ids (ribovision_lsu_output out) s) skip (rnasep_output out) s
        (cascade_from_rnasep e all_seq_ids out skip s)) \<and>
   (working_subset all_seq_ids (ribovision_lsu_output out) s = {} \<longrightarrow>
      no_invocation s (cascade_from_rnasep e all_seq_ids out skip s)) \<and>
   (working_subset all_seq_ids (rnasep_output out) s \<noteq> {} \<longrightarrow>
      tool_ran ''classify_trna_sequences'' (working_subset all_seq_ids (rnasep_output out) s) s
        (cascade_from_gtrnadb e all_seq_ids out skip s)) \<and>
   (working_subset all_seq_ids (rnasep_output out) s = {} \<longrightarrow>
      no_invocation s (cascade_from_gtrnadb e all_seq_ids out skip s)) \<and>
   (working_subset all_seq_ids (gtrnadb_output out) s \<noteq> {} \<longrightarrow>
      tool_ran ''cmsearch_nohmm_mode'' (working_subset all_seq_ids (gtrnadb_output out) s) s
        (cascade_from_rfam_trna e all_seq_ids out skip s)) \<and>
   (working_subset all_seq_ids (gtrnadb_output out) s = {} \<longrightarrow>
      no_invocation s (cascade_from_rfam_trna e all_seq_ids out skip s))"
  by (intro conjI impI ran_rfam ran_ssu ran_crw ran_lsu ran_rnasep ran_gtrnadb ran_rfam_trna
        skip_by_working_subset)


lemma nothing_claimed:
  "working_subset {''C''} f empty_state \<noteq> {}"
  by (simp add: working_subset_def empty_state_def get_hits_def)

lemma everything_claimed:
  "working_subset {''A''} f all_claimed_state = {}"
  by (simp add: working_subset_def all_claimed_state_def empty_state_def)

theorem first_stage_runs_later_stages_guarded_witness:
  "ribotyper_stage_ran scenario_env (path_join (CM_LIBRARY scenario_env) ''rfam'') {} False
     (rfam_output ''out'') empty_state (draw scenario_env {} ''out'' None False empty_state) \<and>
   long_out empty_state (rfam_output ''out'') = None \<and>
   (\<exists>more. tool_runs (draw scenario_env {} ''out'' None False empty_state) =
      tool_runs empty_state @ (path_join (CM_LIBRARY scenario_env) ''rfam'', {}) # more) \<and>
   working_subset {''C''} (rfam_output ''out'') empty_state \<noteq> {} \<and>
   ribotyper_stage_ran scenario_env (RIBOVISION_SSU_CM_LIBRARY scenario_env)
        (working_subset {''C''} (rfam_output ''out'') empty_state) False (ribovision_ssu_output ''out'') empty_state
        (cascade_from_ssu scenario_env {''C''} ''out'' False empty_state) \<and>
   working_subset {''A''} (rfam_output ''out'') all_claimed_state = {} \<and>
   no_invocation all_claimed_state
        (cascade_from_ssu scenario_env {''A''} ''out'' False all_claimed_state) \<and>
   working_subset {''C''} (ribovision_ssu_output ''out'') empty_state \<noteq> {} \<and>
   ribotyper_stage_ran scenario_env (CRW_CM_LIBRARY scenario_env)
        (working_subset {''C''} (ribovision_ssu_output ''out'') empty_state) False (crw_output ''out'') empty_state
        (cascade_from_crw scenario_env {''C''} ''out'' False empty_state) \<and>
   working_subset {''A''} (ribovision_ssu_output ''out'') all_claimed_state = {} \<and>
   no_invocation all_claimed_state
        (cascade_from_crw scenario_env {''A''} ''out'' False all_claimed_state) \<and>
   working_subset {''C''} (crw_output ''out'') empty_state \<noteq> {} \<and>
   ribotyper_stage_ran scenario_env (RIBOVISION_LSU_CM_LIBRARY scenario_env)
        (working_subset {''C''} (crw_output ''out'') empty_state) False (ribovision_lsu_output ''out'') empty_state
        (cascade_from_lsu scenario_env {''C''} ''out'' False empty_state) \<and>
   working_subset {''A''} (crw_output ''out'') all_claimed_state = {} \<and>
   no_invocation all_claimed_state
        (cascade_from_lsu scenario_env {''A''} ''out'' False all_claimed_state) \<and>
   working_subset {''C''} (ribovision_lsu_output ''out'') empty_state \<noteq> {} \<and>
   ribotyper_stage_ran scenario_env (RNASEP_CM_LIBRARY scenario_env)
        (working_subset {''C''} (ribovision_lsu_output ''out'') empty_state) False (rnasep_output ''out'') empty_state
        (cascade_from_rnasep scenario_env {''C''} ''out'' False empty_state) \<and>
   working_subset {''A''} (ribovision_lsu_output ''out'') all_claimed_state = {} \<and>
   no_invocation all_claimed_state
        (cascade_from_rnasep scenario_env {''A''} ''out'' False all_claimed_state) \<and>
   working_subset {''C''} (rnasep_output ''out'') empty_state \<noteq> {} \<and>
   tool_ran ''classify_trna_sequences''
        (working_subset {''C''} (rnasep_output ''out'') empty_state) empty_state
        (cascade_from_gtrnadb scenario_env {''C''} ''out'' False empty_state) \<and>
   working_subset {''A''} (rnasep_output ''out'') all_claimed_state = {} \<and>
   no_invocation all_claimed_state
        (cascade_from_gtrnadb scenario_env {''A''} ''out'' False all_claimed_state) \<and>
   working_subset {''C''} (gtrnadb_output ''out'') empty_state \<noteq> {} \<and>
   tool_ran ''cmsearch_nohmm_mode''
        (working_subset {''C''} (gtrnadb_output ''out'') empty_state) empty_state
        (cascade_from_rfam_trna scenario_env {''C''} ''out'' False empty_state) \<and>
   working_subset {''A''} (gtrnadb_output ''out'') all_claimed_state = {} \<and>
   no_invocation all_claimed_state
        (cascade_from_rfam_trna scenario_env {''A''} ''out'' False all_claimed_state)"
proof -
  note ne = nothing_claimed
  note em = everything_claimed
  note run = first_stage_runs_later_stages_guarded
      [where e = scenario_env and all_seq_ids = "{''C''}" and out = "''out''" and skip = False
         and s = empty_state]
  note skp = first_stage_runs_later_stages_guarded
      [where e = scenario_env and all_seq_ids = "{''A''}" and out = "''out''" and skip = False
         and s = all_claimed_state]
  from run have f: "ribotyper_stage_ran scenario_env (path_join (CM_LIBRARY scenario_env) ''rfam'') {} False
     (rfam_output ''out'') empty_state (draw scenario_env {} ''out'' None False empty_state)"
    by (elim conjE)
  have lo: "long_out empty_state (rfam_output ''out'') = None"
    by (simp add: empty_state_def)
  from f lo have ex: "(\<exists>more. tool_runs (draw scenario_env {} ''out'' None False empty_state) =
      tool_runs empty_state @ (path_join (CM_LIBRARY scenario_env) ''rfam'', {}) # more)"
    unfolding ribotyper_stage_ran_def by (elim conjE) (erule mp)
  from run have r0: "ribotyper_stage_ran scenario_env (RIBOVISION_SSU_CM_LIBRARY scenario_env)
        (working_subset {''C''} (rfam_output ''out'') empty_state) False (ribovision_ssu_output ''out'') empty_state
        (cascade_from_ssu scenario_env {''C''} ''out'' False empty_state)"
    using ne [of "rfam_output ''out''"] by (elim conjE) (erule mp)
  from skp have n0: "no_invocation all_claimed_state
        (cascade_from_ssu scenario_env {''A''} ''out'' False all_claimed_state)"
    using em [of "rfam_output ''out''"] by (elim conjE) (erule mp)
  from run have r1: "ribotyper_stage_ran scenario_env (CRW_CM_LIBRARY scenario_env)
        (working_subset {''C''} (ribovision_ssu_output ''out'') empty_state) False (crw_output ''out'') empty_state
        (cascade_from_crw scenario_env {''C''} ''out'' False empty_state)"
    using ne [of "ribovision_ssu_output ''out''"] by (elim conjE) (erule mp)
  from skp have n1: "no_invocation all_claimed_state
        (cascade_from_crw scenario_env {''A''} ''out'' False all_claimed_state)"
    using em [of "ribovision_ssu_output ''out''"] by (elim conjE) (erule mp)
  from run have r2: "ribotyper_stage_ran scenario_env (RIBOVISION_LSU_CM_LIBRARY scenario_env)
        (working_subset {''C''} (crw_output ''out'') empty_state) False (ribovision_lsu_output ''out'') empty_state
        (cascade_from_lsu scenario_env {''C''} ''out'' False empty_state)"
    using ne [of "crw_output ''out''"] by (elim conjE) (erule mp)
  from skp have n2: "no_invocation all_claimed_state
        (cascade_from_lsu scenario_env {''A''} ''out'' False all_claimed_state)"
    using em [of "crw_output ''out''"] by (elim conjE) (erule mp)
  from run have r3: "ribotyper_stage_ran scenario_env (RNASEP_CM_LIBRARY scenario_env)
        (working_subset {''C''} (ribovision_lsu_output ''out'') empty_state) False (rnasep_output ''out'') empty_state
        (cascade_from_rnasep scenario_env {''C''} ''out'' False empty_state)"
    using ne [of "ribovision_lsu_output ''out''"] by (elim conjE) (erule mp)
  from skp have n3: "no_invocation all_claimed_state
        (cascade_from_rnasep scenario_env {''A''} ''out'' False all_claimed_state)"
    using em [of "ribovision_lsu_output ''out''"] by (elim conjE) (erule mp)
  from run have r4: "tool_ran ''classify_trna_sequences''
        (working_subset {''C''} (rnasep_output ''out'') empty_state) empty_state
        (cascade_from_gtrnadb scenario_env {''C''} ''out'' False empty_state)"
    using ne [of "rnasep_output ''out''"] by (elim conjE) (erule mp)
  from skp have n4: "no_invocation all_claimed_state
        (cascade_from_gtrnadb scenario_env {''A''} ''out'' False all_claimed_state)"
    using em [of "rnasep_output ''out''"] by (elim conjE) (erule mp)
  from run have r5: "tool_ran ''cmsearch_nohmm_mode''
        (working_subset {''C''} (gtrnadb_output ''out'') empty_state) empty_state
        (cascade_from_rfam_trna scenario_env {''C''} ''out'' False empty_state)"
    using ne [of "gtrnadb_output ''out''"] by (elim conjE) (erule mp)
  from skp have n5: "no_invocation all_claimed_state
        (cascade_from_rfam_trna scenario_env {''A''} ''out'' False all_claimed_state)"
    using em [of "gtrnadb_output ''out''"] by (elim conjE) (erule mp)
  from f lo ex ne [of "rfam_output ''out''"] r0 em [of "rfam_output ''out''"] n0 ne [of "ribovision_ssu_output ''out''"] r1 em [of "ribovision_ssu_output ''out''"] n1 ne [of "crw_output ''out''"] r2 em [of "crw_output ''out''"] n2 ne [of "ribovision_lsu_output ''out''"] r3 em [of "ribovision_lsu_output ''out''"] n3 ne [of "rnasep_output ''out''"] r4 em [of "rnasep_output ''out''"] n4 ne [of "gtrnadb_output ''out''"] r5 em [of "gtrnadb_output ''out''"] n5
  show ?thesis by (intro conjI)
qed

section \<open>The partition of the input by the cascade\<close>

text \<open>
  Every block of \<^verbatim>\<open>draw\<close> after the first adds the hit list of the stage before it to
  \<open>hits\<close> and gives its own stage the ids outside \<open>hits\<close>.  The invariant \<open>cascade_inv\<close> is
  kept by each block, as long as the stage writes hits of its input into its own folder
  only.
\<close>


lemma claimed_cong:
  "hits_txt s' g = hits_txt s g \<Longrightarrow> claimed s' g = claimed s g"
  by (simp add: claimed_def get_hits_def)

lemma claimed_None: "hits_txt s g = None \<Longrightarrow> claimed s g = {}"
  by (simp add: claimed_def get_hits_def)

lemma inv_extend:
  assumes inv: "cascade_inv a s past f (r # rest)"
    and dist: "distinct (past @ f # r # rest)"
    and h': "hits s' = hits s \<union> claimed s f"
    and files: "\<And>g. g \<noteq> r \<Longrightarrow>
                 hits_txt s' g = hits_txt s g \<and> long_out s' g = long_out s g"
    and cr: "claimed s' r \<subseteq> a - hits s'"
    and calls: "stage_calls s' = stage_calls s \<or>
                stage_calls s' = stage_calls s @ [(r, a - hits s')]"
  shows "cascade_inv a s' (past @ [f]) r rest"
proof -
  note i = inv [unfolded cascade_inv_def]
  from i have h: "hits s = \<Union> (claimed s ` set past)"
    by (elim conjE)
  from i have hs: "hits s \<subseteq> a"
    by (elim conjE)
  from i have cf: "claimed s f \<subseteq> a - hits s"
    by (elim conjE)
  from i have dj0: "\<forall>i j. i < j \<and> j < length past \<longrightarrow>
               claimed s (past ! i) \<inter> claimed s (past ! j) = {}"
    by (elim conjE)
  from i have old0: "\<forall>(g, ids) \<in> set (stage_calls s).
               g \<in> set (past @ [f]) \<and>
               ids = a - \<Union> (claimed s ` set (takeWhile (\<lambda>h. h \<noteq> g) (past @ [f])))"
    by (elim conjE)
  from i have untouched0:
    "\<forall>x \<in> set (r # rest). hits_txt s x = None \<and> long_out s x = None"
    by (elim conjE)
  from dj0 have dj: "\<And>i j. i < j \<Longrightarrow> j < length past \<Longrightarrow>
               claimed s (past ! i) \<inter> claimed s (past ! j) = {}"
    by blast
  from old0 have old: "\<And>g ids. (g, ids) \<in> set (stage_calls s) \<Longrightarrow>
               g \<in> set (past @ [f]) \<and>
               ids = a - \<Union> (claimed s ` set (takeWhile (\<lambda>h. h \<noteq> g) (past @ [f])))"
    by blast
  from untouched0 have untouched:
    "\<And>x. x \<in> set rest \<Longrightarrow> hits_txt s x = None \<and> long_out s x = None"
    by simp
  from dist have rp: "r \<notin> set past" and rf: "r \<noteq> f" and rr: "r \<notin> set rest"
    by auto
  have same: "claimed s' g = claimed s g" if "g \<in> set (past @ [f])" for g
  proof -
    from that rp rf have "g \<noteq> r" by auto
    with files [of g] show ?thesis by (intro claimed_cong) simp
  qed
  have U: "\<Union> (claimed s' ` set (past @ [f])) = \<Union> (claimed s ` set (past @ [f]))"
    using same by (intro arg_cong [where f = Union] image_cong refl)
  have 1: "hits s' = \<Union> (claimed s' ` set (past @ [f]))"
    unfolding U using h h' by auto
  have 2: "hits s' \<subseteq> a"
    using h' hs cf by auto
  have 4: "claimed s' ((past @ [f]) ! i) \<inter> claimed s' ((past @ [f]) ! j) = {}"
    if ij: "i < j \<and> j < length (past @ [f])" for i j
  proof (cases "j < length past")
    case True
    with ij have "(past @ [f]) ! i = past ! i" "(past @ [f]) ! j = past ! j"
      by (simp_all add: nth_append)
    moreover from True ij have "past ! i \<in> set past" "past ! j \<in> set past" by simp_all
    ultimately show ?thesis using same dj [of i j] ij True by simp
  next
    case False
    with ij have j: "j = length past" by simp
    with ij have i: "(past @ [f]) ! i = past ! i" and ip: "past ! i \<in> set past"
      by (simp_all add: nth_append)
    from j have jf: "(past @ [f]) ! j = f" by simp
    from ip h have "claimed s (past ! i) \<subseteq> hits s" by auto
    with cf have "claimed s (past ! i) \<inter> claimed s f = {}" by auto
    with i jf ip same show ?thesis by simp
  qed
  have 5: "g \<in> set ((past @ [f]) @ [r]) \<and>
           ids = a - \<Union> (claimed s' ` set (takeWhile (\<lambda>h. h \<noteq> g) ((past @ [f]) @ [r])))"
    if e: "(g, ids) \<in> set (stage_calls s')" for g ids
  proof (cases "(g, ids) \<in> set (stage_calls s)")
    case True
    from old [OF True] have g: "g \<in> set (past @ [f])"
      and ids: "ids = a - \<Union> (claimed s ` set (takeWhile (\<lambda>h. h \<noteq> g) (past @ [f])))"
      by blast+
    from g have tw: "takeWhile (\<lambda>h. h \<noteq> g) ((past @ [f]) @ [r]) =
                     takeWhile (\<lambda>h. h \<noteq> g) (past @ [f])"
      by (intro takeWhile_append1 [of g]) simp_all
    have eqU: "\<Union> (claimed s' ` set (takeWhile (\<lambda>h. h \<noteq> g) (past @ [f]))) =
          \<Union> (claimed s ` set (takeWhile (\<lambda>h. h \<noteq> g) (past @ [f])))"
    proof (intro arg_cong [where f = Union] image_cong refl)
      fix x
      assume "x \<in> set (takeWhile (\<lambda>h. h \<noteq> g) (past @ [f]))"
      then have "x \<in> set (past @ [f])"
        by (rule set_takeWhileD [THEN conjunct1])
      then show "claimed s' x = claimed s x" by (rule same)
    qed
    from g have g': "g \<in> set ((past @ [f]) @ [r])"
      by (simp only: set_append) blast
    have "ids = a - \<Union> (claimed s' ` set (takeWhile (\<lambda>h. h \<noteq> g) ((past @ [f]) @ [r])))"
      unfolding tw eqU by (rule ids)
    with g' show ?thesis by (rule conjI)
  next
    case False
    with e calls have new: "g = r" "ids = a - hits s'" by auto
    from rp rf have tw: "takeWhile (\<lambda>h. h \<noteq> r) ((past @ [f]) @ [r]) = past @ [f]"
      by (subst takeWhile_append2) auto
    have g': "g \<in> set ((past @ [f]) @ [r])"
      unfolding new by simp
    have "ids = a - \<Union> (claimed s' ` set (takeWhile (\<lambda>h. h \<noteq> g) ((past @ [f]) @ [r])))"
      unfolding new tw 1 [symmetric] by (rule refl)
    with g' show ?thesis by (rule conjI)
  qed
  have 6: "hits_txt s' x = None \<and> long_out s' x = None" if "x \<in> set rest" for x
  proof -
    from that rr have "x \<noteq> r" by auto
    with files untouched [OF that] show ?thesis by simp
  qed
  show ?thesis
    unfolding cascade_inv_def
  proof (intro conjI)
    show "hits s' = \<Union> (claimed s' ` set (past @ [f]))" by (rule 1)
    show "hits s' \<subseteq> a" by (rule 2)
    show "claimed s' r \<subseteq> a - hits s'" by (rule cr)
    show "\<forall>i j. i < j \<and> j < length (past @ [f]) \<longrightarrow>
            claimed s' ((past @ [f]) ! i) \<inter> claimed s' ((past @ [f]) ! j) = {}"
      using 4 by blast
    show "\<forall>(g, ids) \<in> set (stage_calls s').
            g \<in> set ((past @ [f]) @ [r]) \<and>
            ids = a - \<Union> (claimed s' ` set (takeWhile (\<lambda>h. h \<noteq> g) ((past @ [f]) @ [r])))"
      using 5 by blast
    show "\<forall>r \<in> set rest. hits_txt s' r = None \<and> long_out s' r = None"
      using 6 by blast
  qed
qed


lemma guarded_step:
  assumes inv: "cascade_inv a s past f (r # rest)"
    and dist: "distinct (past @ f # r # rest)"
    and stage: "writes_own_folder r stage"
  shows "cascade_inv a (guarded a f r stage s) (past @ [f]) r rest"
proof -
  let ?s1 = "fold_hits f s"
  let ?sub = "a - hits ?s1"
  from inv have rn: "hits_txt s r = None \<and> long_out s r = None"
    unfolding cascade_inv_def by simp
  have h1: "hits ?s1 = hits s \<union> claimed s f"
    by (simp add: claimed_def)
  show ?thesis
  proof (cases "?sub = {}")
    case True
    then have g: "guarded a f r stage s = ?s1"
      by (simp add: guarded_def Let_def)
    have "claimed ?s1 r = {}"
      using rn by (intro claimed_None) simp
    then have cr: "claimed ?s1 r \<subseteq> a - hits ?s1" by simp
    show ?thesis
      unfolding g
      by (rule inv_extend [OF inv dist h1 _ cr]) simp_all
  next
    case False
    let ?s1' = "?s1\<lparr>stage_calls := stage_calls ?s1 @ [(r, ?sub)]\<rparr>"
    let ?s2 = "stage ?sub ?s1'"
    from False have g: "guarded a f r stage s = ?s2"
      by (simp add: guarded_def Let_def)
    from rn have pre: "hits_txt ?s1' r = None \<and> long_out ?s1' r = None" by simp
    from stage [unfolded writes_own_folder_def, rule_format, OF pre, of ?sub]
    have e1: "hits ?s2 = hits ?s1'"
      and e2: "stage_calls ?s2 = stage_calls ?s1'"
      and e3: "\<And>g. g \<noteq> r \<Longrightarrow>
                 hits_txt ?s2 g = hits_txt ?s1' g \<and> long_out ?s2 g = long_out ?s1' g"
      and e4: "get_hits (hits_txt ?s2) r \<subseteq> ?sub"
      by blast+
    have h2: "hits ?s2 = hits s \<union> claimed s f"
      using e1 by (simp add: claimed_def)
    have hh: "hits ?s2 = hits ?s1" using e1 by simp
    have cr: "claimed ?s2 r \<subseteq> a - hits ?s2"
      unfolding hh claimed_def by (rule e4)
    have files: "hits_txt ?s2 g = hits_txt s g \<and> long_out ?s2 g = long_out s g"
      if "g \<noteq> r" for g
      using e3 [OF that] by simp
    have calls: "stage_calls ?s2 = stage_calls s \<or>
                 stage_calls ?s2 = stage_calls s @ [(r, a - hits ?s2)]"
      unfolding hh using e2 by simp
    show ?thesis
      unfolding g
      by (rule inv_extend [OF inv dist h2 files cr calls])
  qed
qed


lemma get_hits_upd_same:
  "get_hits (m(f \<mapsto> ls)) f = first_field ` set ls"
  by (simp add: get_hits_def)

lemma get_ribotyper_output_writes:
  assumes "reports_own_input e"
  shows "writes_own_folder f (\<lambda>ids. get_ribotyper_output e ids f lib skip)"
  unfolding writes_own_folder_def
proof (intro allI impI)
  fix ids and s :: run_state
  assume pre: "hits_txt s f = None \<and> long_out s f = None"
  have sub: "first_field `
      set (filter_report skip (case ribotyper e lib ids of None \<Rightarrow> [] | Some ls \<Rightarrow> ls)) \<subseteq> ids"
  proof (cases "ribotyper e lib ids")
    case None
    then show ?thesis
      by (simp add: filter_report_def grep_def grep_v_def grep_v_start_def)
  next
    case (Some report)
    with assms show ?thesis
      unfolding reports_own_input_def by (simp only: option.case)
  qed
  from pre sub
  show "hits (get_ribotyper_output e ids f lib skip s) = hits s \<and>
        stage_calls (get_ribotyper_output e ids f lib skip s) = stage_calls s \<and>
        (\<forall>g. g \<noteq> f \<longrightarrow>
           hits_txt (get_ribotyper_output e ids f lib skip s) g = hits_txt s g \<and>
           long_out (get_ribotyper_output e ids f lib skip s) g = long_out s g) \<and>
        get_hits (hits_txt (get_ribotyper_output e ids f lib skip s)) f \<subseteq> ids"
    by (simp add: get_ribotyper_output_def Let_def get_hits_upd_same)
qed

lemma gtrnadb_body_writes:
  assumes "reports_own_input e"
  shows "writes_own_folder (gtrnadb_output out) (gtrnadb_body e out)"
  unfolding writes_own_folder_def
proof (intro allI impI)
  fix ids and s :: run_state
  assume pre: "hits_txt s (gtrnadb_output out) = None \<and> long_out s (gtrnadb_output out) = None"
  from assms have c: "\<And>ls. classify_trna_sequences e ids = Some ls \<Longrightarrow>
                        first_field ` set ls \<subseteq> ids"
    unfolding reports_own_input_def by blast
  show "hits (gtrnadb_body e out ids s) = hits s \<and>
        stage_calls (gtrnadb_body e out ids s) = stage_calls s \<and>
        (\<forall>g. g \<noteq> gtrnadb_output out \<longrightarrow>
           hits_txt (gtrnadb_body e out ids s) g = hits_txt s g \<and>
           long_out (gtrnadb_body e out ids s) g = long_out s g) \<and>
        get_hits (hits_txt (gtrnadb_body e out ids s)) (gtrnadb_output out) \<subseteq> ids"
  proof (cases "classify_trna_sequences e ids")
    case None
    with pre show ?thesis
      by (simp add: gtrnadb_body_def Let_def get_hits_def)
  next
    case (Some ls)
    with c [OF Some] show ?thesis
      by (simp add: gtrnadb_body_def Let_def get_hits_upd_same)
  qed
qed

lemma rfam_trna_body_writes:
  assumes "reports_own_input e"
  shows "writes_own_folder (rfam_trna_output out) (rfam_trna_body e out)"
  unfolding writes_own_folder_def
proof (intro allI impI)
  fix ids and s :: run_state
  let ?r = "rfam_trna_output out"
  assume pre: "hits_txt s ?r = None \<and> long_out s ?r = None"
  from assms have t: "fst (cmsearch_nohmm_mode e ids) \<subseteq> ids"
    and c: "\<And>ls. snd (cmsearch_nohmm_mode e ids) = Some ls \<Longrightarrow> first_field ` set ls \<subseteq> ids"
    and g: "\<And>ls. generate_2d e (fst (cmsearch_nohmm_mode e ids)) = Some ls \<Longrightarrow>
                 first_field ` set ls \<subseteq> fst (cmsearch_nohmm_mode e ids)"
    unfolding reports_own_input_def by blast+
  from g t have g': "\<And>ls. generate_2d e (fst (cmsearch_nohmm_mode e ids)) = Some ls \<Longrightarrow>
                 first_field ` set ls \<subseteq> ids"
    by blast
  show "hits (rfam_trna_body e out ids s) = hits s \<and>
        stage_calls (rfam_trna_body e out ids s) = stage_calls s \<and>
        (\<forall>g. g \<noteq> ?r \<longrightarrow>
           hits_txt (rfam_trna_body e out ids s) g = hits_txt s g \<and>
           long_out (rfam_trna_body e out ids s) g = long_out s g) \<and>
        get_hits (hits_txt (rfam_trna_body e out ids s)) ?r \<subseteq> ids"
  proof (cases "snd (cmsearch_nohmm_mode e ids)")
    case None
    show ?thesis
    proof (cases "generate_2d e (fst (cmsearch_nohmm_mode e ids))")
      case n: None
      with None pre show ?thesis
        by (simp add: rfam_trna_body_def Let_def get_hits_def)
    next
      case (Some ls)
      with None pre g' [OF Some] show ?thesis
        by (simp add: rfam_trna_body_def Let_def get_hits_upd_same) (simp add: get_hits_def)
    qed
  next
    case (Some ls1)
    show ?thesis
    proof (cases "generate_2d e (fst (cmsearch_nohmm_mode e ids))")
      case None
      with Some c [OF Some] show ?thesis
        by (simp add: rfam_trna_body_def Let_def get_hits_upd_same)
    next
      case s2: (Some ls2)
      with Some c [OF Some] g' [OF s2] show ?thesis
        by (simp add: rfam_trna_body_def Let_def get_hits_upd_same)
    qed
  qed
qed


lemma draw_command_writes:
  assumes "reports_own_input e"
  shows "writes_own_folder t (\<lambda>ids. ribovision_draw_ssu e ids t skip)"
    and "writes_own_folder t (\<lambda>ids. rrna_draw e ids t skip)"
    and "writes_own_folder t (\<lambda>ids. ribovision_draw_lsu e ids t skip)"
    and "writes_own_folder t (\<lambda>ids. rnasep_draw e ids t skip)"
  unfolding ribovision_draw_ssu_def rrna_draw_def ribovision_draw_lsu_def rnasep_draw_def
  by (rule get_ribotyper_output_writes [OF assms])+

lemma rfam_stage_inv:
  assumes env: "reports_own_input e" and fr: "fresh s" and log: "stage_calls s = []"
  shows "cascade_inv a (rfam_stage e a out skip s) [] (rfam_output out)
           [ribovision_ssu_output out, crw_output out, ribovision_lsu_output out,
            rnasep_output out, gtrnadb_output out, rfam_trna_output out]"
proof -
  let ?f = "rfam_output out"
  let ?s0 = "s\<lparr>hits := {}, stage_calls := stage_calls s @ [(?f, a)]\<rparr>"
  let ?s1 = "rfam_stage e a out skip s"
  have s1: "?s1 = get_ribotyper_output e a ?f (path_join (CM_LIBRARY e) ''rfam'') skip ?s0"
    by (simp add: rfam_stage_def)
  from fr have pre: "hits_txt ?s0 ?f = None \<and> long_out ?s0 ?f = None"
    by (simp add: fresh_def)
  from get_ribotyper_output_writes [OF env, unfolded writes_own_folder_def, rule_format, OF pre,
         of a "path_join (CM_LIBRARY e) ''rfam''" skip]
  have e1: "hits ?s1 = {}"
    and e2: "stage_calls ?s1 = [(?f, a)]"
    and e3: "\<And>g. g \<noteq> ?f \<Longrightarrow> hits_txt ?s1 g = None \<and> long_out ?s1 g = None"
    and e4: "claimed ?s1 ?f \<subseteq> a"
    unfolding s1 claimed_def using fr log by (simp_all add: fresh_def)
  have rest: "hits_txt ?s1 r = None \<and> long_out ?s1 r = None"
    if "r \<in> set [ribovision_ssu_output out, crw_output out, ribovision_lsu_output out,
            rnasep_output out, gtrnadb_output out, rfam_trna_output out]" for r
  proof -
    from that distinct_cascade_folders [of out] have "r \<noteq> ?f"
      by (auto simp: cascade_folders_def)
    then show ?thesis by (rule e3)
  qed
  show ?thesis
    unfolding cascade_inv_def
  proof (intro conjI)
    show "hits ?s1 = \<Union> (claimed ?s1 ` set [])" using e1 by simp
    show "hits ?s1 \<subseteq> a" using e1 by simp
    show "claimed ?s1 ?f \<subseteq> a - hits ?s1" using e1 e4 by simp
    show "\<forall>i j. i < j \<and> j < length [] \<longrightarrow>
            claimed ?s1 ([] ! i) \<inter> claimed ?s1 ([] ! j) = {}"
      by simp
    show "\<forall>(g, ids) \<in> set (stage_calls ?s1).
            g \<in> set ([] @ [?f]) \<and>
            ids = a - \<Union> (claimed ?s1 ` set (takeWhile (\<lambda>h. h \<noteq> g) ([] @ [?f])))"
      unfolding e2 by simp
    show "\<forall>r \<in> set [ribovision_ssu_output out, crw_output out, ribovision_lsu_output out,
            rnasep_output out, gtrnadb_output out, rfam_trna_output out].
            hits_txt ?s1 r = None \<and> long_out ?s1 r = None"
      using rest by blast
  qed
qed

lemma cascade_inv_final:
  assumes env: "reports_own_input e" and fr: "fresh s" and log: "stage_calls s = []"
  shows "cascade_inv a (cascade_from_ssu e a out skip (rfam_stage e a out skip s))
           [rfam_output out, ribovision_ssu_output out, crw_output out,
            ribovision_lsu_output out, rnasep_output out, gtrnadb_output out]
           (rfam_trna_output out) []"
proof -
  note w = draw_command_writes [OF env]
  from distinct_cascade_folders [of out]
  have d: "distinct [rfam_output out, ribovision_ssu_output out, crw_output out,
            ribovision_lsu_output out, rnasep_output out, gtrnadb_output out,
            rfam_trna_output out]"
    by (simp add: cascade_folders_def)
  let ?s1 = "rfam_stage e a out skip s"
  let ?s2 = "guarded a (rfam_output out) (ribovision_ssu_output out)
               (\<lambda>ids. ribovision_draw_ssu e ids (ribovision_ssu_output out) skip) ?s1"
  let ?s3 = "guarded a (ribovision_ssu_output out) (crw_output out)
               (\<lambda>ids. rrna_draw e ids (crw_output out) skip) ?s2"
  let ?s4 = "guarded a (crw_output out) (ribovision_lsu_output out)
               (\<lambda>ids. ribovision_draw_lsu e ids (ribovision_lsu_output out) skip) ?s3"
  let ?s5 = "guarded a (ribovision_lsu_output out) (rnasep_output out)
               (\<lambda>ids. rnasep_draw e ids (rnasep_output out) skip) ?s4"
  let ?s6 = "guarded a (rnasep_output out) (gtrnadb_output out) (gtrnadb_body e out) ?s5"
  let ?s7 = "guarded a (gtrnadb_output out) (rfam_trna_output out) (rfam_trna_body e out) ?s6"
  have i1: "cascade_inv a ?s1 [] (rfam_output out)
           [ribovision_ssu_output out, crw_output out, ribovision_lsu_output out,
            rnasep_output out, gtrnadb_output out, rfam_trna_output out]"
    by (rule rfam_stage_inv [OF env fr log])
  have i2: "cascade_inv a ?s2 [rfam_output out] (ribovision_ssu_output out)
           [crw_output out, ribovision_lsu_output out,
            rnasep_output out, gtrnadb_output out, rfam_trna_output out]"
    using guarded_step [OF i1 _ w(1)] d by simp
  have i3: "cascade_inv a ?s3 [rfam_output out, ribovision_ssu_output out] (crw_output out)
           [ribovision_lsu_output out, rnasep_output out, gtrnadb_output out,
            rfam_trna_output out]"
    using guarded_step [OF i2 _ w(2)] d by simp
  have i4: "cascade_inv a ?s4 [rfam_output out, ribovision_ssu_output out, crw_output out]
           (ribovision_lsu_output out)
           [rnasep_output out, gtrnadb_output out, rfam_trna_output out]"
    using guarded_step [OF i3 _ w(3)] d by simp
  have i5: "cascade_inv a ?s5
           [rfam_output out, ribovision_ssu_output out, crw_output out,
            ribovision_lsu_output out]
           (rnasep_output out) [gtrnadb_output out, rfam_trna_output out]"
    using guarded_step [OF i4 _ w(4)] d by simp
  have i6: "cascade_inv a ?s6
           [rfam_output out, ribovision_ssu_output out, crw_output out,
            ribovision_lsu_output out, rnasep_output out]
           (gtrnadb_output out) [rfam_trna_output out]"
    using guarded_step [OF i5 _ gtrnadb_body_writes [OF env]] d by simp
  have i7: "cascade_inv a ?s7
           [rfam_output out, ribovision_ssu_output out, crw_output out,
            ribovision_lsu_output out, rnasep_output out, gtrnadb_output out]
           (rfam_trna_output out) []"
    using guarded_step [OF i6 _ rfam_trna_body_writes [OF env]] d by simp
  have "cascade_from_ssu e a out skip ?s1 = ?s7"
    by (simp add: cascade_from_ssu_def cascade_from_crw_def cascade_from_lsu_def
          cascade_from_rnasep_def cascade_from_gtrnadb_def cascade_from_rfam_trna_def)
  with i7 show ?thesis by simp
qed



lemma run_cascade_fields:
  "claimed (run_cascade e a out skip s) =
     claimed (cascade_from_ssu e a out skip (rfam_stage e a out skip s))"
  "stage_calls (run_cascade e a out skip s) =
     stage_calls (cascade_from_ssu e a out skip (rfam_stage e a out skip s))"
  "hits (run_cascade e a out skip s) =
     hits (cascade_from_ssu e a out skip (rfam_stage e a out skip s))"
  by (simp_all add: run_cascade_def Let_def claimed_def fun_eq_iff)

lemma cascade_inv_partition:
  assumes inv: "cascade_inv a s past t []"
  shows "\<Union> (claimed s ` set (past @ [t])) \<subseteq> a"
    and "\<forall>i j. i < j \<and> j < length (past @ [t]) \<longrightarrow>
           claimed s ((past @ [t]) ! i) \<inter> claimed s ((past @ [t]) ! j) = {}"
    and "\<forall>(g, ids) \<in> set (stage_calls s).
           g \<in> set (past @ [t]) \<and>
           ids = a - \<Union> (claimed s ` set (takeWhile (\<lambda>h. h \<noteq> g) (past @ [t])))"
proof -
  note i = inv [unfolded cascade_inv_def]
  from i have h: "hits s = \<Union> (claimed s ` set past)"
    by (elim conjE)
  from i have hs: "hits s \<subseteq> a"
    by (elim conjE)
  from i have ct: "claimed s t \<subseteq> a - hits s"
    by (elim conjE)
  from i have dj0: "\<forall>i j. i < j \<and> j < length past \<longrightarrow>
               claimed s (past ! i) \<inter> claimed s (past ! j) = {}"
    by (elim conjE)
  from i show "\<forall>(g, ids) \<in> set (stage_calls s).
           g \<in> set (past @ [t]) \<and>
           ids = a - \<Union> (claimed s ` set (takeWhile (\<lambda>h. h \<noteq> g) (past @ [t])))"
    by (elim conjE)
  from dj0 have dj: "\<And>i j. i < j \<Longrightarrow> j < length past \<Longrightarrow>
               claimed s (past ! i) \<inter> claimed s (past ! j) = {}"
    by blast
  have "\<Union> (claimed s ` set (past @ [t])) = hits s \<union> claimed s t"
    unfolding h by auto
  with hs ct show "\<Union> (claimed s ` set (past @ [t])) \<subseteq> a" by auto
  have 4: "claimed s ((past @ [t]) ! i) \<inter> claimed s ((past @ [t]) ! j) = {}"
    if ij: "i < j \<and> j < length (past @ [t])" for i j
  proof (cases "j < length past")
    case True
    with ij have "(past @ [t]) ! i = past ! i" "(past @ [t]) ! j = past ! j"
      by (simp_all add: nth_append)
    then show ?thesis using dj [of i j] ij True by simp
  next
    case False
    with ij have j: "j = length past" by simp
    with ij have i: "(past @ [t]) ! i = past ! i" and ip: "past ! i \<in> set past"
      by (simp_all add: nth_append)
    from j have jt: "(past @ [t]) ! j = t" by simp
    from ip h have "claimed s (past ! i) \<subseteq> hits s" by auto
    with ct have "claimed s (past ! i) \<inter> claimed s t = {}" by auto
    with i jt show ?thesis by simp
  qed
  then show "\<forall>i j. i < j \<and> j < length (past @ [t]) \<longrightarrow>
           claimed s ((past @ [t]) ! i) \<inter> claimed s ((past @ [t]) ! j) = {}"
    by blast
qed

lemma cascade_folders_snoc:
  "cascade_folders out =
     [rfam_output out, ribovision_ssu_output out, crw_output out,
      ribovision_lsu_output out, rnasep_output out, gtrnadb_output out] @
     [rfam_trna_output out]"
  by (simp add: cascade_folders_def)

text \<open>The environment of the run on three sequences keeps the contract of the classifiers.\<close>

lemma scenario_rows:
  "first_field ` set (filter_report True [''1  A  PASS  90  1  -  -  RF00001  plus  -'']) = {''A''}"
  "first_field ` set (filter_report False [''1  A  PASS  90  1  -  -  RF00001  plus  -'']) = {''A''}"
  "first_field ` set (filter_report True
      [''1  B  PASS  900  1  SSU  Bacteria  EC_SSU_3D  plus  -'']) = {''B''}"
  "first_field ` set (filter_report False
      [''1  B  PASS  900  1  SSU  Bacteria  EC_SSU_3D  plus  -'']) = {''B''}"
  "first_field ` set (filter_report True []) = {}"
  "first_field ` set (filter_report False []) = {}"
  by code_simp+

lemma scenario_env_reports_own_input: "reports_own_input scenario_env"
  unfolding reports_own_input_def
proof (intro conjI allI impI)
  fix lib ids report skip
  assume "ribotyper scenario_env lib ids = Some report"
  then consider
      "report = [''1  A  PASS  90  1  -  -  RF00001  plus  -'']" and "''A'' \<in> ids"
    | "report = [''1  B  PASS  900  1  SSU  Bacteria  EC_SSU_3D  plus  -'']" and "''B'' \<in> ids"
    | "report = []"
    by (auto simp: scenario_env_def split: if_splits)
  then show "first_field ` set (filter_report skip report) \<subseteq> ids"
  proof cases
    case 1
    then show ?thesis by (cases skip) (simp_all only: scenario_rows, simp_all)
  next
    case 2
    then show ?thesis by (cases skip) (simp_all only: scenario_rows, simp_all)
  next
    case 3
    then show ?thesis by (cases skip) (simp_all only: scenario_rows, simp_all)
  qed
qed (simp_all add: scenario_env_def)

text \<open>
  Claim C1, the partition property.  Let the output folder hold no report and no hit list of
  an earlier run, and let every classifier report only ids of the file it is given.  Then
  after \<^verbatim>\<open>draw\<close> on the input ids \<open>all_seq_ids\<close>:
  \<^item> the ids in the hit lists of the seven stages, together with the ids in none of them,
    are exactly \<open>all_seq_ids\<close>;
  \<^item> no id is in the hit lists of two stages;
  \<^item> every stage that was invoked was given the ids of \<open>all_seq_ids\<close> that are in no hit
    list of a stage before it in the cascade.
\<close>

theorem cascade_partitions_input:
  assumes "reports_own_input e" and "fresh s" and "stage_calls s = []"
  shows
    "\<Union> (claimed (draw e all_seq_ids out None skip s) ` set (cascade_folders out)) \<union>
       (all_seq_ids -
          \<Union> (claimed (draw e all_seq_ids out None skip s) ` set (cascade_folders out))) =
       all_seq_ids \<and>
     (\<forall>i j. i < j \<and> j < length (cascade_folders out) \<longrightarrow>
        claimed (draw e all_seq_ids out None skip s) (cascade_folders out ! i) \<inter>
        claimed (draw e all_seq_ids out None skip s) (cascade_folders out ! j) = {}) \<and>
     (\<forall>(g, ids) \<in> set (stage_calls (draw e all_seq_ids out None skip s)).
        g \<in> set (cascade_folders out) \<and>
        ids = all_seq_ids -
              \<Union> (claimed (draw e all_seq_ids out None skip s) `
                   set (takeWhile (\<lambda>h. h \<noteq> g) (cascade_folders out))))"
proof -
  note p = cascade_inv_partition [OF cascade_inv_final [OF assms, of all_seq_ids out skip],
             folded cascade_folders_snoc run_cascade_fields]
  have d: "draw e all_seq_ids out None skip s = run_cascade e all_seq_ids out skip s"
    by (simp add: draw_def)
  from p(1) have "\<Union> (claimed (run_cascade e all_seq_ids out skip s) ` set (cascade_folders out)) \<union>
       (all_seq_ids -
          \<Union> (claimed (run_cascade e all_seq_ids out skip s) ` set (cascade_folders out))) =
       all_seq_ids"
    by (simp only: Un_Diff_cancel) (rule Un_absorb1)
  with p(2) p(3) show ?thesis
    unfolding d by (intro conjI)
qed


text \<open>
  The run on three sequences: the environment keeps the contract, the folder is empty, the
  Rfam stage claims \<open>A\<close>, the RiboVision SSU stage claims \<open>B\<close>, and \<open>C\<close> is left over.
\<close>

theorem cascade_partitions_input_witness:
  "reports_own_input scenario_env \<and> fresh empty_state \<and> stage_calls empty_state = [] \<and>
   map (claimed (draw scenario_env {''A'', ''B'', ''C''} ''out'' None False empty_state))
     (cascade_folders ''out'') = [{''A''}, {''B''}, {}, {}, {}, {}, {}] \<and>
   \<Union> (claimed (draw scenario_env {''A'', ''B'', ''C''} ''out'' None False empty_state) `
        set (cascade_folders ''out'')) \<union>
     ({''A'', ''B'', ''C''} -
        \<Union> (claimed (draw scenario_env {''A'', ''B'', ''C''} ''out'' None False empty_state) `
             set (cascade_folders ''out''))) =
     {''A'', ''B'', ''C''} \<and>
   claimed (draw scenario_env {''A'', ''B'', ''C''} ''out'' None False empty_state)
     (cascade_folders ''out'' ! 0) \<inter>
   claimed (draw scenario_env {''A'', ''B'', ''C''} ''out'' None False empty_state)
     (cascade_folders ''out'' ! 1) = {}"
proof -
  have fr: "fresh empty_state"
    by (simp add: fresh_def empty_state_def)
  have lg: "stage_calls empty_state = []"
    by (simp add: empty_state_def)
  note t = cascade_partitions_input [OF scenario_env_reports_own_input fr lg,
             where all_seq_ids = "{''A'', ''B'', ''C''}" and out = "''out''" and skip = False]
  from t have u: "\<Union> (claimed (draw scenario_env {''A'', ''B'', ''C''} ''out'' None False empty_state) `
        set (cascade_folders ''out'')) \<union>
     ({''A'', ''B'', ''C''} -
        \<Union> (claimed (draw scenario_env {''A'', ''B'', ''C''} ''out'' None False empty_state) `
             set (cascade_folders ''out''))) =
     {''A'', ''B'', ''C''}"
    by (elim conjE)
  from t have dj: "\<forall>i j. i < j \<and> j < length (cascade_folders ''out'') \<longrightarrow>
        claimed (draw scenario_env {''A'', ''B'', ''C''} ''out'' None False empty_state)
          (cascade_folders ''out'' ! i) \<inter>
        claimed (draw scenario_env {''A'', ''B'', ''C''} ''out'' None False empty_state)
          (cascade_folders ''out'' ! j) = {}"
    by (elim conjE)
  have "(0::nat) < 1 \<and> 1 < length (cascade_folders ''out'')"
    by (simp add: cascade_folders_def)
  with dj have d01: "claimed (draw scenario_env {''A'', ''B'', ''C''} ''out'' None False empty_state)
     (cascade_folders ''out'' ! 0) \<inter>
   claimed (draw scenario_env {''A'', ''B'', ''C''} ''out'' None False empty_state)
     (cascade_folders ''out'' ! 1) = {}"
    by (elim allE) (erule mp)
  have v: "map (claimed (draw scenario_env {''A'', ''B'', ''C''} ''out'' None False empty_state))
     (cascade_folders ''out'') = [{''A''}, {''B''}, {}, {}, {}, {}, {}]"
    by code_simp
  from scenario_env_reports_own_input fr lg v u d01 show ?thesis
    by (intro conjI)
qed

text \<open>
  Without the first condition the property fails.  \<^verbatim>\<open>get_ribotyper_output\<close> runs the
  classifier only when the folder holds no report (line 43) and then writes the hit list
  from whatever report is there.  With the report of an earlier run on \<open>A\<close> and \<open>Z\<close> in the
  folder of the RiboVision SSU stage, a run on \<open>A\<close> and \<open>B\<close> invokes that stage on \<open>B\<close> alone
  and yet its hit list holds \<open>A\<close>, which the Rfam stage has claimed, and \<open>Z\<close>, which is no
  id of the input.
\<close>

theorem stale_report_breaks_partition:
  "long_out stale_state (ribovision_ssu_output ''out'') \<noteq> None \<and>
   stage_calls (draw scenario_env {''A'', ''B''} ''out'' None False stale_state) =
     [(rfam_output ''out'', {''A'', ''B''}), (ribovision_ssu_output ''out'', {''B''}),
      (crw_output ''out'', {''B''}), (ribovision_lsu_output ''out'', {''B''}),
      (rnasep_output ''out'', {''B''}), (gtrnadb_output ''out'', {''B''}),
      (rfam_trna_output ''out'', {''B''})] \<and>
   map (claimed (draw scenario_env {''A'', ''B''} ''out'' None False stale_state))
     (cascade_folders ''out'') = [{''A''}, {''A'', ''Z''}, {}, {}, {}, {}, {}] \<and>
   claimed (draw scenario_env {''A'', ''B''} ''out'' None False stale_state)
     (rfam_output ''out'') \<inter>
   claimed (draw scenario_env {''A'', ''B''} ''out'' None False stale_state)
     (ribovision_ssu_output ''out'') = {''A''} \<and>
   \<Union> (claimed (draw scenario_env {''A'', ''B''} ''out'' None False stale_state) `
        set (cascade_folders ''out'')) \<union>
     ({''A'', ''B''} -
        \<Union> (claimed (draw scenario_env {''A'', ''B''} ''out'' None False stale_state) `
             set (cascade_folders ''out''))) =
     {''A'', ''B'', ''Z''} \<and>
   {''A'', ''B'', ''Z''} \<noteq> {''A'', ''B''}"
  by code_simp

end
